theory Spec2Isabelle
  imports Complex_Main "HOL-Library.Word" "HOL-Library.Multiset"
begin

unbundle bit_operations_syntax

section \<open>SVPV evidence aggregation: alignment records, depth tiers, breakend events\<close>

text \<open>
  A shallow embedding of \<^verbatim>\<open>svpv/sam.py\<close> and \<^verbatim>\<open>svpv/vcf.py\<close>.
  Python objects become records, dictionaries become maps or association lists,
  exceptions become the left summand of a sum type, and loops become recursive functions.
  Strings are byte strings: the fields come from \<^verbatim>\<open>samtools\<close> and
  \<^verbatim>\<open>bcftools\<close> text output, which is ASCII.
\<close>

datatype error = ValueError | AttributeError | KeyError | IndexError | TypeError

subsection \<open>Structural-variant records (\<^verbatim>\<open>vcf.py\<close>, classes SV and BND\_SV)\<close>

text \<open>
  The attributes of \<^verbatim>\<open>SV\<close>. The attribute \<^verbatim>\<open>end\<close> is called
  \<open>sv_end\<close> here. \<^verbatim>\<open>None\<close> is the \<open>None\<close> of an option type.
  Floats (\<^verbatim>\<open>AF\<close>) are exact rationals.
\<close>

record SV =
  chrom :: string
  pos :: int
  sv_end :: int
  inslen :: "int option"
  chr2 :: "string option"
  chr2_pos :: "int option"
  len :: "int option"
  svtype :: string
  GTs :: "string list option"
  AF :: "rat option"

text \<open>
  \<^verbatim>\<open>int(s)\<close> on a text field, as Python 3 reads a decimal literal: blanks around
  it are dropped, a sign may lead, and the digits may be grouped by single underscores
  (\<^verbatim>\<open>int(' +5_000\n')\<close> is 5000). Anything else raises
  \<^verbatim>\<open>ValueError\<close>. A character of the model is a code point below 256; the
  blanks are the ASCII ones that \<^verbatim>\<open>int\<close> strips and the two other white
  space characters of that range, which it reads as a space; the digits are the ASCII
  digits, the only decimal digits of that range.
\<close>

definition is_digit :: "char \<Rightarrow> bool" where
  "is_digit c = (c \<in> set ''0123456789'')"

definition digit_val :: "char \<Rightarrow> int" where
  "digit_val c = int (of_char c) - 48"

definition digits_val :: "string \<Rightarrow> int" where
  "digits_val s = foldl (\<lambda>n c. 10 * n + digit_val c) 0 s"

definition is_blank :: "char \<Rightarrow> bool" where
  "is_blank c =
     (c \<in> set [CHR 0x09, CHR 0x0A, CHR 0x0B, CHR 0x0C, CHR 0x0D, CHR '' '', CHR 0x85, CHR 0xA0])"

definition strip_blanks :: "string \<Rightarrow> string" where
  "strip_blanks s = rev (dropWhile is_blank (rev (dropWhile is_blank s)))"

fun digits_ok :: "string \<Rightarrow> bool" where
  "digits_ok [] = False"
| "digits_ok [c] = is_digit c"
| "digits_ok (c # d # r) =
     (is_digit c \<and> (if d = CHR ''_'' then digits_ok r else digits_ok (d # r)))"

definition literal_val :: "string \<Rightarrow> error + int" where
  "literal_val s =
     (if digits_ok s then Inr (digits_val (filter (\<lambda>c. c \<noteq> CHR ''_'') s)) else Inl ValueError)"

definition py_int :: "string \<Rightarrow> error + int" where
  "py_int s =
     (case strip_blanks s of
        [] \<Rightarrow> Inl ValueError
      | c # r \<Rightarrow>
          if c = CHR ''-'' then map_sum id uminus (literal_val r)
          else if c = CHR ''+'' then literal_val r
          else literal_val (c # r))"

text \<open>The substring test \<^verbatim>\<open>sub in s\<close> on strings.\<close>

fun str_in :: "string \<Rightarrow> string \<Rightarrow> bool" where
  "str_in sub [] = (sub = [])"
| "str_in sub (c # s) = (take (length sub) (c # s) = sub \<or> str_in sub s)"

text \<open>
  \<^verbatim>\<open>SV.get_AF\<close>: every genotype containing \<^verbatim>\<open>1\<close> counts 1, or 2 when it
  contains \<^verbatim>\<open>1/1\<close>; the sum is divided (true division) by twice the number of
  genotypes. With no genotypes the method falls off its end and returns
  \<^verbatim>\<open>None\<close>.
\<close>

fun count_alt :: "string list \<Rightarrow> int" where
  "count_alt [] = 0"
| "count_alt (gt # gts) =
     (if str_in ''1'' gt then (if str_in ''1/1'' gt then 2 else 1) else 0) + count_alt gts"

definition get_AF :: "string list \<Rightarrow> rat option" where
  "get_AF gts =
     (if length gts \<noteq> 0 then Some (of_int (count_alt gts) / of_int (2 * int (length gts)))
      else None)"

text \<open>
  \<^verbatim>\<open>SV.__init__(chrom, pos, end, svtype, svlen, inslen, chr2, gts, af)\<close>.
  The text fields are strings, \<^verbatim>\<open>'.'\<close> meaning absent. The last argument is the
  outcome of \<^verbatim>\<open>float(af)\<close>, which the constructor evaluates only when
  \<^verbatim>\<open>gts\<close> is empty or \<^verbatim>\<open>None\<close>. The statements follow the source in
  order: \<^verbatim>\<open>pos\<close>, \<^verbatim>\<open>end\<close> (falling back to \<^verbatim>\<open>pos\<close> on
  \<^verbatim>\<open>ValueError\<close>), \<^verbatim>\<open>inslen\<close>, \<^verbatim>\<open>chr2\<close> (which resets
  \<^verbatim>\<open>end\<close>), the length, the allele frequency. Python's truth test of an integer
  (\<^verbatim>\<open>elif self.inslen\<close>, \<^verbatim>\<open>if self.pos and self.end\<close>) is false at 0 and
  at \<^verbatim>\<open>None\<close>.
\<close>

definition SV_init ::
  "string \<Rightarrow> string \<Rightarrow> string \<Rightarrow> string \<Rightarrow> string \<Rightarrow> string \<Rightarrow> string \<Rightarrow>
   string list option \<Rightarrow> error + rat \<Rightarrow> error + SV" where
  "SV_init chrom_a pos_a end_a svtype_a svlen_a inslen_a chr2_a gts float_af =
     (case py_int pos_a of Inl e \<Rightarrow> Inl e | Inr p \<Rightarrow>
      let e0 = (case py_int end_a of Inl _ \<Rightarrow> p | Inr e \<Rightarrow> e) in
      case (if inslen_a \<noteq> ''.'' then map_sum id Some (py_int inslen_a) else Inr None) of
        Inl e \<Rightarrow> Inl e | Inr il \<Rightarrow>
      let c2 = (if chr2_a \<noteq> ''.'' then Some chr2_a else None);
          c2p = (if chr2_a \<noteq> ''.'' then Some e0 else None);
          e1 = (if chr2_a \<noteq> ''.'' then p else e0) in
      case (if svlen_a \<noteq> ''.'' then map_sum id (\<lambda>n. Some \<bar>n\<bar>) (py_int svlen_a)
            else if il \<noteq> None \<and> il \<noteq> Some 0 then map_sum id Some (py_int inslen_a)
            else if p \<noteq> 0 \<and> e1 \<noteq> 0 then Inr (Some (e1 - p + 1))
            else Inr None) of
        Inl e \<Rightarrow> Inl e | Inr l \<Rightarrow>
      case (if gts \<noteq> None \<and> gts \<noteq> Some [] then Inr (get_AF (the gts))
            else map_sum id Some float_af) of
        Inl e \<Rightarrow> Inl e | Inr a \<Rightarrow>
      Inr \<lparr>chrom = chrom_a, pos = p, sv_end = e1, inslen = il, chr2 = c2, chr2_pos = c2p,
           len = l, svtype = svtype_a, GTs = gts, AF = a\<rparr>)"

text \<open>
  \<^verbatim>\<open>BND_SV\<close> extends \<^verbatim>\<open>SV\<close>. The attribute \<^verbatim>\<open>id\<close> is
  \<open>bnd_id\<close>. \<^verbatim>\<open>MATE\<close> is a reference to another
  \<^verbatim>\<open>BND_SV\<close> object; objects live in the dictionary \<^verbatim>\<open>BNDs.BNDs\<close>
  under their id, so the reference is modelled by that id.
\<close>

record BND_SV = SV +
  bnd_id :: string
  mate_id :: "string option"
  pair_id :: "string option"
  event_id :: "string option"
  MATE :: "string option"

text \<open>
  The four forms of the \<^verbatim>\<open>ALT\<close> field of a breakend,
  \<^verbatim>\<open>^.+\[(?P<chr>.+):(?P<pos>.+)\[$\<close> (right\_fwd), the same with
  \<^verbatim>\<open>]\<close> (right\_rvs), \<^verbatim>\<open>^\](?P<chr>.+):(?P<pos>.+)\].+$\<close>
  (left\_fwd) and the same with \<^verbatim>\<open>[\<close> (left\_rvs), matched by Python's
  backtracking matcher: each part of an expression is a function from the text still to
  be read to the list of its matches in the matcher's search order, and the first
  complete match is the one reported. \<^verbatim>\<open>.+\<close> takes the longest run without a
  newline first; \<^verbatim>\<open>$\<close> holds at the end of the text and before a final newline.
\<close>

fun any_runs :: "string \<Rightarrow> (string \<times> string) list" where
  "any_runs [] = []"
| "any_runs (c # s) =
     (if c = CHR 0x0A then [] else map (\<lambda>(d, r). (c # d, r)) (any_runs s) @ [([c], s)])"

definition lit :: "char \<Rightarrow> string \<Rightarrow> string list" where
  "lit c s = (case s of [] \<Rightarrow> [] | x # r \<Rightarrow> if x = c then [r] else [])"

definition at_end :: "string \<Rightarrow> bool" where
  "at_end r = (r = [] \<or> r = [CHR 0x0A])"

definition chr_pos :: "char \<Rightarrow> string \<Rightarrow> (string \<times> string \<times> string) list" where
  "chr_pos b s =
     concat (map (\<lambda>r1.
       concat (map (\<lambda>(c, r2).
         concat (map (\<lambda>r3.
           concat (map (\<lambda>(p, r4).
             map (\<lambda>r5. (c, p, r5)) (lit b r4))
           (any_runs r3)))
         (lit CHR '':'' r2)))
       (any_runs r1)))
     (lit b s))"

definition right_form :: "char \<Rightarrow> string \<Rightarrow> (string \<times> string) list" where
  "right_form b s =
     concat (map (\<lambda>(w, r0).
       concat (map (\<lambda>(c, p, r5). if at_end r5 then [(c, p)] else []) (chr_pos b r0)))
     (any_runs s))"

definition left_form :: "char \<Rightarrow> string \<Rightarrow> (string \<times> string) list" where
  "left_form b s =
     concat (map (\<lambda>(c, p, r5).
       concat (map (\<lambda>(w, r6). if at_end r6 then [(c, p)] else []) (any_runs r5)))
     (chr_pos b s))"

text \<open>
  The \<^verbatim>\<open>if/elif\<close> chain over the four forms: the name of the first form that
  matches, with the groups \<^verbatim>\<open>chr\<close> and \<^verbatim>\<open>pos\<close> of its match.
\<close>

definition match_ALT :: "string \<Rightarrow> (string \<times> string \<times> string) option" where
  "match_ALT ALT =
     (case right_form CHR ''['' ALT of (c, p) # _ \<Rightarrow> Some (''right_fwd'', c, p) | [] \<Rightarrow>
      (case right_form CHR '']'' ALT of (c, p) # _ \<Rightarrow> Some (''right_rvs'', c, p) | [] \<Rightarrow>
      (case left_form CHR '']'' ALT of (c, p) # _ \<Rightarrow> Some (''left_fwd'', c, p) | [] \<Rightarrow>
      (case left_form CHR ''['' ALT of (c, p) # _ \<Rightarrow> Some (''left_rvs'', c, p) | [] \<Rightarrow>
       None))))"

text \<open>
  \<^verbatim>\<open>BND_SV.__init__\<close>: the \<^verbatim>\<open>SV\<close> constructor, then the id check, then
  the three optional ids, then the classification of \<^verbatim>\<open>ALT\<close>: when no form
  matches the constructor returns early, otherwise
  \<^verbatim>\<open>self.mate_pos = int(m.group('pos'))\<close> raises \<^verbatim>\<open>ValueError\<close> when the
  position is no integer. The attributes \<^verbatim>\<open>type\<close>, \<^verbatim>\<open>mate_chr\<close> and
  \<^verbatim>\<open>mate_pos\<close> are read by no function modelled here and are not kept in the
  record.
\<close>

type_synonym vcf_field = string

definition BND_SV_init ::
  "string \<Rightarrow> string \<Rightarrow> string \<Rightarrow> string \<Rightarrow> string \<Rightarrow> string \<Rightarrow> string \<Rightarrow>
   vcf_field \<Rightarrow> vcf_field \<Rightarrow> vcf_field \<Rightarrow> vcf_field \<Rightarrow> vcf_field \<Rightarrow>
   string list option \<Rightarrow> error + rat \<Rightarrow> error + BND_SV" where
  "BND_SV_init chrom_a start_a end_a svtype_a svlen_a inslen_a chr2_a ALT ID MATEID PAIRID EVENTID
      gts float_af =
     (case SV_init chrom_a start_a end_a svtype_a svlen_a inslen_a chr2_a gts float_af of
        Inl e \<Rightarrow> Inl e
      | Inr sv \<Rightarrow>
          if ID = ''.'' then Inl ValueError
          else
            (let obj = SV.extend sv
                 (BND_SV.fields ID
                    (if MATEID \<noteq> ''.'' then Some MATEID else None)
                    (if PAIRID \<noteq> ''.'' then Some PAIRID else None)
                    (if EVENTID \<noteq> ''.'' then Some EVENTID else None)
                    None)
             in case match_ALT ALT of
                  None \<Rightarrow> Inr obj
                | Some (ty, c, p) \<Rightarrow>
                    (case py_int p of Inl e \<Rightarrow> Inl e | Inr mate_pos \<Rightarrow> Inr obj)))"

text \<open>
  Example data: the record \<^verbatim>\<open>BND_SV.__init__\<close> builds for a breakend line at
  \<open>c:p\<close> with id \<open>i\<close> whose END, SVLEN, INSLEN and CHR2 fields are absent, without
  genotypes and with allele frequency 0 (lemma \<open>breakend_is_constructed\<close> below).
\<close>

definition breakend :: "string \<Rightarrow> int \<Rightarrow> string \<Rightarrow> string option \<Rightarrow> string option \<Rightarrow>
    string option \<Rightarrow> BND_SV" where
  "breakend c p i m pr ev =
     \<lparr>chrom = c, pos = p, sv_end = p, inslen = None, chr2 = None, chr2_pos = None,
      len = Some 1, svtype = ''BND'', GTs = None, AF = Some 0,
      bnd_id = i, mate_id = m, pair_id = pr, event_id = ev, MATE = None\<rparr>"

subsection \<open>Breakend events (\<^verbatim>\<open>vcf.py\<close>, class BND\_Event)\<close>

type_synonym locus = "string \<times> int"

text \<open>
  The inner loop of \<^verbatim>\<open>BND_Event.__init__\<close>:
  \<^verbatim>\<open>
  is_proximal = False
  for chr, pos in self.loci:
      if bnd.chrom == chr:
          if pos - delta <= bnd.pos <= pos + delta:
              is_proximal = True
  \<close>
\<close>

fun is_proximal :: "int \<Rightarrow> locus list \<Rightarrow> BND_SV \<Rightarrow> bool" where
  "is_proximal delta [] bnd = False"
| "is_proximal delta ((chr, p) # loci) bnd =
     ((SV.chrom bnd = chr \<and> p - delta \<le> SV.pos bnd \<and> SV.pos bnd \<le> p + delta)
      \<or> is_proximal delta loci bnd)"

text \<open>
  The outer loop, with \<^verbatim>\<open>self.loci\<close> as an accumulator;
  \<^verbatim>\<open>raise ValueError\<close> is \<open>Inl ValueError\<close>.
\<close>

fun BND_Event_loop :: "int \<Rightarrow> nat \<Rightarrow> locus list \<Rightarrow> BND_SV list \<Rightarrow> error + locus list" where
  "BND_Event_loop delta max_loci loci [] = Inr loci"
| "BND_Event_loop delta max_loci loci (bnd # bnds) =
     (if loci \<noteq> [] then
        (if \<not> is_proximal delta loci bnd then
           (if length loci < max_loci
            then BND_Event_loop delta max_loci (loci @ [(SV.chrom bnd, SV.pos bnd)]) bnds
            else Inl ValueError)
         else BND_Event_loop delta max_loci loci bnds)
      else BND_Event_loop delta max_loci (loci @ [(SV.chrom bnd, SV.pos bnd)]) bnds)"

record BND_Event =
  bnds :: "BND_SV list"
  loci :: "locus list"

definition BND_Event_init :: "BND_SV list \<Rightarrow> int \<Rightarrow> nat \<Rightarrow> error + BND_Event" where
  "BND_Event_init bs delta max_loci =
     (case BND_Event_loop delta max_loci [] bs of
        Inl e \<Rightarrow> Inl e
      | Inr ls \<Rightarrow> Inr \<lparr>bnds = bs, loci = ls\<rparr>)"

text \<open>The constructor with its default arguments \<^verbatim>\<open>delta=20, max_loci=2\<close>.\<close>

definition BND_Event_new :: "BND_SV list \<Rightarrow> error + BND_Event" where
  "BND_Event_new bs = BND_Event_init bs 20 2"

subsection \<open>The breakend graph (\<^verbatim>\<open>vcf.py\<close>, class BNDs)\<close>

text \<open>
  \<^verbatim>\<open>events\<close> is a dictionary from event id to a list of ids, kept as an
  association list in insertion order; \<^verbatim>\<open>non_events\<close> is a set of ids, kept as
  a list without duplicates; \<^verbatim>\<open>BNDs\<close>, \<^verbatim>\<open>mates\<close> and
  \<^verbatim>\<open>pairs\<close> are dictionaries keyed by id.
\<close>

record BNDs =
  events :: "(string \<times> string list) list"
  non_events :: "string list"
  BNDs :: "string \<rightharpoonup> BND_SV"
  mates :: "string \<rightharpoonup> string"
  pairs :: "string \<rightharpoonup> string"

definition BNDs_init :: BNDs where
  "BNDs_init = \<lparr>events = [], non_events = [], BNDs = Map.empty, mates = Map.empty,
                 pairs = Map.empty\<rparr>"

fun dict_set :: "('k \<times> 'v) list \<Rightarrow> 'k \<Rightarrow> 'v \<Rightarrow> ('k \<times> 'v) list" where
  "dict_set [] k v = [(k, v)]"
| "dict_set ((k', v') # kvs) k v =
     (if k' = k then (k, v) # kvs else (k', v') # dict_set kvs k v)"

definition set_add :: "'a list \<Rightarrow> 'a \<Rightarrow> 'a list" where
  "set_add xs x = (if x \<in> set xs then xs else xs @ [x])"

definition set_discard :: "'a list \<Rightarrow> 'a \<Rightarrow> 'a list" where
  "set_discard xs x = removeAll x xs"

text \<open>
  \<^verbatim>\<open>BNDs.add_BND\<close>. The test \<^verbatim>\<open>bnd_sv not in self.events[...]\<close> compares
  the record object with the id strings held in the list; an object never equals a string,
  so the test is always true and the id is always appended. The pair link is written into
  \<^verbatim>\<open>self.mates\<close> (the source never writes \<^verbatim>\<open>self.pairs\<close>), after the
  mate link, and sets no back-reference.
\<close>

definition obj_in_ids :: "BND_SV \<Rightarrow> string list \<Rightarrow> bool" where
  "obj_in_ids bnd_sv ids = False"

definition add_BND :: "BNDs \<Rightarrow> BND_SV \<Rightarrow> BNDs" where
  "add_BND st bnd_sv =
     (let st1 = st\<lparr>BNDs := (BNDs st)(bnd_id bnd_sv \<mapsto> bnd_sv)\<rparr>;
          st2 = (case event_id bnd_sv of
                   Some e \<Rightarrow>
                     (case map_of (events st1) e of
                        Some ids \<Rightarrow>
                          (if \<not> obj_in_ids bnd_sv ids
                           then st1\<lparr>events := dict_set (events st1) e (ids @ [bnd_id bnd_sv])\<rparr>
                           else st1)
                      | None \<Rightarrow> st1\<lparr>events := dict_set (events st1) e [bnd_id bnd_sv]\<rparr>)
                 | None \<Rightarrow> st1\<lparr>non_events := set_add (non_events st1) (bnd_id bnd_sv)\<rparr>);
          st3 = (case mate_id bnd_sv of
                   Some m \<Rightarrow>
                     (case BNDs st2 m of
                        Some _ \<Rightarrow>
                          (let ms = ((mates st2)(bnd_id bnd_sv \<mapsto> m))(m \<mapsto> bnd_id bnd_sv);
                               b1 = (BNDs st2)(bnd_id bnd_sv \<mapsto> bnd_sv\<lparr>MATE := Some m\<rparr>);
                               b2 = (case b1 m of
                                       Some mo \<Rightarrow> b1(m \<mapsto> mo\<lparr>MATE := Some (bnd_id bnd_sv)\<rparr>)
                                     | None \<Rightarrow> b1)
                           in st2\<lparr>mates := ms, BNDs := b2\<rparr>)
                      | None \<Rightarrow> st2)
                 | None \<Rightarrow> st2);
          st4 = (case pair_id bnd_sv of
                   Some p \<Rightarrow>
                     (case BNDs st3 p of
                        Some _ \<Rightarrow>
                          st3\<lparr>mates := ((mates st3)(bnd_id bnd_sv \<mapsto> p))(p \<mapsto> bnd_id bnd_sv)\<rparr>
                      | None \<Rightarrow> st3)
                 | None \<Rightarrow> st3)
      in st4)"

text \<open>
  \<^verbatim>\<open>BNDs.pop_non_event\<close>. \<^verbatim>\<open>self.non_events.pop()\<close> removes an arbitrary
  element of the set; the element popped is the argument \<open>ne\<close>, which the caller takes
  from \<open>non_events st\<close>. \<^verbatim>\<open>bnds[-1]\<close> is \<open>last\<close>. The second block discards
  nothing when it appends \<^verbatim>\<open>self.pairs[ne]\<close>, as in the source.
\<close>

definition pop_non_event :: "string \<Rightarrow> BNDs \<Rightarrow> string list \<times> BNDs" where
  "pop_non_event ne st =
     (let s0 = set_discard (non_events st) ne;
          b0 = [ne];
          (b1, s1) =
             (case mates st ne of
                None \<Rightarrow> (b0, s0)
              | Some m \<Rightarrow>
                  (let b = b0 @ [m]; s = set_discard s0 (last b) in
                   (case pairs st (last b) of
                      None \<Rightarrow> (b, s)
                    | Some p \<Rightarrow>
                        if p \<notin> set b then (b @ [p], set_discard s p) else (b, s))));
          (b2, s2) =
             (case pairs st ne of
                None \<Rightarrow> (b1, s1)
              | Some p \<Rightarrow>
                  (let b = (if p \<notin> set b1 then b1 @ [p] else b1) in
                   (case mates st (last b) of
                      None \<Rightarrow> (b, s1)
                    | Some m \<Rightarrow>
                        if m \<notin> set b then (b @ [m], set_discard s1 m) else (b, s1))))
      in (b2, st\<lparr>non_events := s2\<rparr>))"

text \<open>\<^verbatim>\<open>[self.BNDs[k] for k in ids]\<close>; a missing key raises \<^verbatim>\<open>KeyError\<close>.\<close>

fun lookup_all :: "(string \<rightharpoonup> BND_SV) \<Rightarrow> string list \<Rightarrow> error + BND_SV list" where
  "lookup_all d [] = Inr []"
| "lookup_all d (k # ks) =
     (case d k of
        None \<Rightarrow> Inl KeyError
      | Some b \<Rightarrow> (case lookup_all d ks of Inl e \<Rightarrow> Inl e | Inr bs \<Rightarrow> Inr (b # bs)))"

text \<open>
  One pass of either loop body of \<^verbatim>\<open>BNDs.get_events\<close>: build the event inside
  \<^verbatim>\<open>try\<close>; \<^verbatim>\<open>except ValueError: pass\<close> keeps the list as it is; any other
  exception propagates.
\<close>

definition try_event :: "BNDs \<Rightarrow> string list \<Rightarrow> BND_Event list \<Rightarrow> error + BND_Event list" where
  "try_event st ids bnd_events =
     (case lookup_all (BNDs st) ids of
        Inl e \<Rightarrow> if e = ValueError then Inr bnd_events else Inl e
      | Inr bs \<Rightarrow>
          (case BND_Event_new bs of
             Inl e \<Rightarrow> if e = ValueError then Inr bnd_events else Inl e
           | Inr ev \<Rightarrow> Inr (bnd_events @ [ev])))"

fun events_loop :: "BNDs \<Rightarrow> (string \<times> string list) list \<Rightarrow> BND_Event list \<Rightarrow>
    error + BND_Event list" where
  "events_loop st [] bnd_events = Inr bnd_events"
| "events_loop st ((e, ids) # rest) bnd_events =
     (case try_event st ids bnd_events of
        Inl err \<Rightarrow> Inl err
      | Inr bnd_events' \<Rightarrow> events_loop st rest bnd_events')"

text \<open>
  The \<^verbatim>\<open>while len(self.non_events) > 0\<close> loop. Which element
  \<^verbatim>\<open>set.pop()\<close> removes is not determined by the source; the first argument is a
  priority list that decides it: the first id of \<open>ord\<close> that is still pending is popped
  (the head of the pending list when \<open>ord\<close> names none). Every run of the source is
  the run of the model for the list of ids in the order the source popped them.
\<close>

definition pop_choice :: "string list \<Rightarrow> string list \<Rightarrow> string" where
  "pop_choice ord pending =
     (case find (\<lambda>x. x \<in> set pending) ord of Some x \<Rightarrow> x | None \<Rightarrow> hd pending)"

function non_events_loop :: "string list \<Rightarrow> BNDs \<Rightarrow> BND_Event list \<Rightarrow> error + BND_Event list"
  where
  "non_events_loop ord st bnd_events =
     (if length (non_events st) > 0 then
        (case pop_non_event (pop_choice ord (non_events st)) st of
           (ids, st') \<Rightarrow>
             (case try_event st' ids bnd_events of
                Inl err \<Rightarrow> Inl err
              | Inr bnd_events' \<Rightarrow> non_events_loop ord st' bnd_events'))
      else Inr bnd_events)"
  by pat_completeness auto
termination
proof (relation "measure (\<lambda>(ord, st, acc). length (non_events st))", simp, clarsimp)
  fix ord :: "string list" and st :: BNDs and ids st'
  assume ne: "non_events st \<noteq> []"
    and pop: "(ids, st') = pop_non_event (pop_choice ord (non_events st)) st"
  have mem: "pop_choice ord (non_events st) \<in> set (non_events st)"
    using ne by (cases "non_events st") (auto simp: pop_choice_def find_Some_iff split: option.splits)
  have strict: "length (removeAll (pop_choice ord (non_events st)) (non_events st))
      < length (non_events st)"
    using mem by (simp add: length_removeAll_less)
  have s1: "\<And>a xs. length (removeAll (a::string) xs) \<le> length xs"
    by (simp add: length_removeAll_less_eq)
  have s2: "\<And>a b xs. length (removeAll (a::string) (removeAll b xs)) \<le> length xs"
    by (meson s1 order_trans)
  have s3: "\<And>a b c xs. length (removeAll (a::string) (removeAll b (removeAll c xs))) \<le> length xs"
    by (meson s1 s2 order_trans)
  have "length (non_events (snd (pop_non_event (pop_choice ord (non_events st)) st)))
      \<le> length (removeAll (pop_choice ord (non_events st)) (non_events st))"
    by (simp add: pop_non_event_def set_discard_def Let_def s1 s2 s3 split: option.splits prod.splits)
  with strict pop show "length (non_events st') < length (non_events st)"
    by (metis snd_conv le_less_trans)
qed

definition get_events :: "string list \<Rightarrow> BNDs \<Rightarrow> error + BND_Event list" where
  "get_events ord st =
     (case events_loop st (events st) [] of
        Inl err \<Rightarrow> Inl err
      | Inr bnd_events \<Rightarrow> non_events_loop ord st bnd_events)"

subsection \<open>Auxiliary notions for the statements about breakend events\<close>

text \<open>
  The locus a call contributes when it opens a new one, and the condition that no two
  calls of a set lie at different positions within 20 bp of each other on one chromosome.
\<close>

definition locus_of :: "BND_SV \<Rightarrow> locus" where
  "locus_of b = (SV.chrom b, SV.pos b)"

definition separated :: "BND_SV set \<Rightarrow> bool" where
  "separated S = (\<forall>a\<in>S. \<forall>b\<in>S.
      SV.chrom a = SV.chrom b \<and> \<bar>SV.pos a - SV.pos b\<bar> \<le> 20 \<longrightarrow> SV.pos a = SV.pos b)"

subsection \<open>Range queries over the SV index (\<^verbatim>\<open>vcf.py\<close>, class VCFManager)\<close>

text \<open>
  The attributes of \<^verbatim>\<open>VCFManager\<close> that the query reads: the sample names, the
  dictionary \<^verbatim>\<open>SVs\<close> (chromosome to position to list of records) and the
  dictionary \<^verbatim>\<open>positions\<close> (chromosome to list of positions).
  \<^verbatim>\<open>set_svs\<close> stores every record under its own \<^verbatim>\<open>pos\<close> (a
  \<^verbatim>\<open>TRA\<close> record with a second contig also under that contig, at key
  \<^verbatim>\<open>end\<close>, which the constructor has reset to \<^verbatim>\<open>pos\<close>) and sets
  \<^verbatim>\<open>positions[chr] = sorted(list(SVs[chr].keys()))\<close>. Breakend records in the
  lists are read through their \<^verbatim>\<open>SV\<close> attributes.
\<close>

record VCFManager =
  samples :: "string list"
  SVs :: "string \<rightharpoonup> (int \<rightharpoonup> SV list)"
  positions :: "string \<rightharpoonup> int list"

text \<open>
  The inner loop of \<^verbatim>\<open>get_svs_in_range\<close> over the records at one position:
  \<^verbatim>\<open>
  for sv in self.SVs[chrom][pos]:
      if sv.pos > end: continue
      if sv.end < start: continue
      else: ret.append(sv)
  \<close>
\<close>

fun svs_at_pos :: "SV list \<Rightarrow> int \<Rightarrow> int \<Rightarrow> SV list" where
  "svs_at_pos [] start end_q = []"
| "svs_at_pos (sv # svs) start end_q =
     (if SV.pos sv > end_q then svs_at_pos svs start end_q
      else if sv_end sv < start then svs_at_pos svs start end_q
      else sv # svs_at_pos svs start end_q)"

text \<open>
  The outer loop over \<^verbatim>\<open>self.positions[chrom]\<close>, with its \<^verbatim>\<open>break\<close> at
  the first position beyond the query end. The look-up \<^verbatim>\<open>self.SVs[chrom][pos]\<close>
  raises \<^verbatim>\<open>KeyError\<close> on a missing chromosome or position.
\<close>

fun scan_positions :: "(int \<rightharpoonup> SV list) option \<Rightarrow> int list \<Rightarrow> int \<Rightarrow> int \<Rightarrow> error + SV list"
  where
  "scan_positions d [] start end_q = Inr []"
| "scan_positions d (p # ps) start end_q =
     (if p > end_q then Inr []
      else
        (case d of
           None \<Rightarrow> Inl KeyError
         | Some m \<Rightarrow>
             (case m p of
                None \<Rightarrow> Inl KeyError
              | Some svs \<Rightarrow>
                  (case scan_positions d ps start end_q of
                     Inl e \<Rightarrow> Inl e
                   | Inr ret \<Rightarrow> Inr (svs_at_pos svs start end_q @ ret)))))"

text \<open>
  The sample filter: a record is deleted when the genotype of the sample contains no
  \<^verbatim>\<open>1\<close>. \<^verbatim>\<open>self.samples.index(sample)\<close> raises \<^verbatim>\<open>ValueError\<close> for
  an unknown sample, \<^verbatim>\<open>sv.GTs[i]\<close> raises \<^verbatim>\<open>TypeError\<close> when the record
  has no genotypes and \<^verbatim>\<open>IndexError\<close> when it has too few. Deleting the collected
  indices from the back keeps the other records in order.
\<close>

fun index_of :: "'a list \<Rightarrow> 'a \<Rightarrow> nat option" where
  "index_of [] x = None"
| "index_of (y # ys) x = (if y = x then Some 0 else map_option Suc (index_of ys x))"

fun filter_sample :: "string list \<Rightarrow> string \<Rightarrow> SV list \<Rightarrow> error + SV list" where
  "filter_sample names sample [] = Inr []"
| "filter_sample names sample (sv # ret) =
     (case index_of names sample of
        None \<Rightarrow> Inl ValueError
      | Some i \<Rightarrow>
          (case GTs sv of
             None \<Rightarrow> Inl TypeError
           | Some gts \<Rightarrow>
               if i < length gts then
                 (case filter_sample names sample ret of
                    Inl e \<Rightarrow> Inl e
                  | Inr ret' \<Rightarrow> Inr (if \<not> str_in ''1'' (gts ! i) then ret' else sv # ret'))
               else Inl IndexError))"

definition get_svs_in_range ::
  "VCFManager \<Rightarrow> string \<Rightarrow> int \<Rightarrow> int \<Rightarrow> string option \<Rightarrow> error + SV list" where
  "get_svs_in_range st chrom_q start end_q sample =
     (case (case positions st chrom_q of
              None \<Rightarrow> Inr []
            | Some ps \<Rightarrow> scan_positions (SVs st chrom_q) ps start end_q) of
        Inl e \<Rightarrow> Inl e
      | Inr ret \<Rightarrow>
          (case sample of
             None \<Rightarrow> Inr ret
           | Some s \<Rightarrow> filter_sample (samples st) s ret))"

text \<open>A record with the given chromosome, position and end, as the query reads it.\<close>

definition sv_call :: "string \<Rightarrow> int \<Rightarrow> int \<Rightarrow> SV" where
  "sv_call c p e =
     \<lparr>chrom = c, pos = p, sv_end = e, inslen = None, chr2 = None, chr2_pos = None,
      len = Some (e - p + 1), svtype = ''DEL'', GTs = None, AF = Some 0\<rparr>"

subsection \<open>Coordinate bins\<close>

text \<open>
  Modelled from the spec: the class of the binning scheme, whose objects
  \<^verbatim>\<open>sam.py\<close> receives as \<^verbatim>\<open>bins\<close> and reads through the attributes
  \<^verbatim>\<open>chrom\<close>, \<^verbatim>\<open>start\<close>, \<^verbatim>\<open>size\<close>, \<^verbatim>\<open>num\<close> and the method
  \<^verbatim>\<open>get_bin_coverage\<close>, is not among the source files. The specification gives a
  chromosome, an inclusive start, a positive bin size and a positive bin count, covering
  \<open>[start, start + bin_size * bin_count)\<close>.
\<close>

record Bins =
  chromosome :: string
  start :: int
  bin_size :: int
  bin_count :: nat

subsection \<open>Depth tiers (\<^verbatim>\<open>sam.py\<close>, class DepthStats)\<close>

text \<open>
  A numpy array is its element type and its rows. The elements are rationals: they are
  the float64 values of the code wherever float64 arithmetic is exact, as it is on
  integers of magnitude below \<open>2^53\<close> under addition and subtraction. Rounding and the
  values \<^verbatim>\<open>inf\<close> and \<^verbatim>\<open>nan\<close> are not modelled; the statements below are
  about inputs on which they do not arise.
  \<^verbatim>\<open>np.float\<close> is numpy's alias of the Python class \<^verbatim>\<open>float\<close>, while
  \<^verbatim>\<open>self.depths.dtype\<close> is an instance of \<^verbatim>\<open>numpy.dtype\<close>. The operator
  \<^verbatim>\<open>is\<close> compares object identity, so the two operands are kept apart as Python
  objects of different kinds.
\<close>

datatype np_dtype = float64 | intc

datatype py_object = Dtype np_dtype | BuiltinFloat

definition np_float :: py_object where
  "np_float = BuiltinFloat"

definition py_is :: "py_object \<Rightarrow> py_object \<Rightarrow> bool" where
  "py_is a b = (a = b)"

record ndarray =
  dtype :: np_dtype
  rows :: "rat list list"

record DepthStats =
  bins :: Bins
  depths :: ndarray
  mapq_thresh :: int

text \<open>
  \<^verbatim>\<open>DepthStats.convert_depths\<close>:
  \<^verbatim>\<open>
  if self.depths.dtype is np.float:
      raise ValueError
  self.depths = self.depths.astype(np.float) / self.bins.size
  \<close>
  The quotient of the model is the exact one, which float64 rounds to the nearest
  representable value. At bin size 0 numpy stores \<^verbatim>\<open>inf\<close> or \<^verbatim>\<open>nan\<close>
  and raises nothing; the model has no such values and nothing is stated for that case
  (the specification takes the bin size to be positive).
\<close>

definition astype_float :: "ndarray \<Rightarrow> ndarray" where
  "astype_float a = a\<lparr>dtype := float64\<rparr>"

definition np_divide :: "ndarray \<Rightarrow> int \<Rightarrow> ndarray" where
  "np_divide a n = a\<lparr>rows := map (map (\<lambda>x. x / of_int n)) (rows a)\<rparr>"

definition convert_depths :: "DepthStats \<Rightarrow> error + DepthStats" where
  "convert_depths ds =
     (if py_is (Dtype (dtype (depths ds))) np_float then Inl ValueError
      else Inr (ds\<lparr>depths := np_divide (astype_float (depths ds)) (bin_size (bins ds))\<rparr>))"

text \<open>
  The column numbers of \<^verbatim>\<open>DepthStats\<close>, and the numpy operations that
  \<^verbatim>\<open>set_depths\<close> uses. Storing into an integer array truncates towards zero.
  \<^verbatim>\<open>a[r] = v\<close> on a two-dimensional array addresses row \<open>r\<close>
  (\<^verbatim>\<open>IndexError\<close> when there is none) and broadcasts \<open>v\<close> to the length of the
  row: a vector of that length is stored as it is, a vector of length 1 is repeated, any
  other raises \<^verbatim>\<open>ValueError\<close>. The difference of two vectors broadcasts likewise.
\<close>

definition TOTAL :: nat where "TOTAL = 0"
definition MAPQLTT :: nat where "MAPQLTT = 1"
definition MAPQ0 :: nat where "MAPQ0 = 2"

definition trunc_rat :: "rat \<Rightarrow> rat" where
  "trunc_rat x = (if 0 \<le> x then of_int \<lfloor>x\<rfloor> else of_int \<lceil>x\<rceil>)"

definition np_store :: "np_dtype \<Rightarrow> rat \<Rightarrow> rat" where
  "np_store dt x = (case dt of float64 \<Rightarrow> x | intc \<Rightarrow> trunc_rat x)"

definition broadcast_to :: "nat \<Rightarrow> rat list \<Rightarrow> error + rat list" where
  "broadcast_to n v =
     (if length v = n then Inr v
      else if length v = 1 then Inr (replicate n (hd v))
      else Inl ValueError)"

definition np_getrow :: "ndarray \<Rightarrow> nat \<Rightarrow> error + rat list" where
  "np_getrow a r = (if r < length (rows a) then Inr (rows a ! r) else Inl IndexError)"

definition np_setrow :: "ndarray \<Rightarrow> nat \<Rightarrow> rat list \<Rightarrow> error + ndarray" where
  "np_setrow a r v =
     (if r < length (rows a) then
        (case broadcast_to (length (rows a ! r)) v of
           Inl e \<Rightarrow> Inl e
         | Inr w \<Rightarrow> Inr (a\<lparr>rows := (rows a)[r := map (np_store (dtype a)) w]\<rparr>))
      else Inl IndexError)"

definition np_sub :: "rat list \<Rightarrow> rat list \<Rightarrow> error + rat list" where
  "np_sub u v =
     (if length u = length v then Inr (map2 (-) u v)
      else if length v = 1 then Inr (map (\<lambda>x. x - hd v) u)
      else if length u = 1 then Inr (map (\<lambda>y. hd u - y) v)
      else Inl ValueError)"

text \<open>
  \<^verbatim>\<open>DepthStats.set_depths\<close>. The coverage source \<^verbatim>\<open>SAMtools.bedcov\<close> runs an
  external program; it is the parameter \<open>bedcov\<close>, a function of the minimum mapping
  quality that returns one value per bin. The values are taken to be integers (every base
  of a bin covered alike), so that the float64 subtractions of the code are exact and the
  model computes what numpy computes; for other values float64 rounds and no statement is
  made. The temporary BED file is input of that program only.
  \<^verbatim>\<open>
  depths_gt_1 = SAMtools.bedcov(..., min_Q=1)
  depths_gt_T = SAMtools.bedcov(..., min_Q=self.mapq_thresh)
  self.depths[DepthStats.TOTAL] = SAMtools.bedcov(..., min_Q=0)
  self.depths[DepthStats.MAPQ0] = self.depths[DepthStats.TOTAL] - depths_gt_1
  self.depths[DepthStats.MAPQLTT] = self.depths[DepthStats.TOTAL] - depths_gt_T
                                    - self.depths[DepthStats.MAPQ0]
  \<close>
\<close>

definition set_depths :: "DepthStats \<Rightarrow> (int \<Rightarrow> int list) \<Rightarrow> error + DepthStats" where
  "set_depths ds bedcov =
     (let depths_gt_1 = map of_int (bedcov 1);
          depths_gt_T = map of_int (bedcov (mapq_thresh ds)) in
      case np_setrow (depths ds) TOTAL (map of_int (bedcov 0)) of Inl e \<Rightarrow> Inl e | Inr a1 \<Rightarrow>
      case np_getrow a1 TOTAL of Inl e \<Rightarrow> Inl e | Inr t1 \<Rightarrow>
      case np_sub t1 depths_gt_1 of Inl e \<Rightarrow> Inl e | Inr z \<Rightarrow>
      case np_setrow a1 MAPQ0 z of Inl e \<Rightarrow> Inl e | Inr a2 \<Rightarrow>
      case np_getrow a2 TOTAL of Inl e \<Rightarrow> Inl e | Inr t2 \<Rightarrow>
      case np_sub t2 depths_gt_T of Inl e \<Rightarrow> Inl e | Inr d \<Rightarrow>
      case np_getrow a2 MAPQ0 of Inl e \<Rightarrow> Inl e | Inr z2 \<Rightarrow>
      case np_sub d z2 of Inl e \<Rightarrow> Inl e | Inr b \<Rightarrow>
      case np_setrow a2 MAPQLTT b of Inl e \<Rightarrow> Inl e | Inr a3 \<Rightarrow>
      Inr (ds\<lparr>depths := a3\<rparr>))"

subsection \<open>Alignment records (\<^verbatim>\<open>sam.py\<close>, class SamEntry)\<close>

text \<open>
  The regular expression \<^verbatim>\<open>cigar_clip\<close>,
  \<^verbatim>\<open>^((?P<LH>[0-9]+)H)?((?P<LS>[0-9]+)S)?([0-9]+[^HS])+((?P<RS>[0-9]+)S)?((?P<RH>[0-9]+)H)?$\<close>,
  is matched by Python's backtracking matcher, which returns the first match in its
  search order: a greedy item first tries to match (the longest digit run first), then
  shorter runs, then, for an optional group, to be skipped. Each part of the expression
  is a function from the text still to be read to the list of its matches in that order
  (what it captured and the text left), so the head of the list of complete matches is
  the match Python reports.
\<close>

text \<open>\<^verbatim>\<open>[0-9]+\<close>: the non-empty digit prefixes, longest first.\<close>

fun digit_runs :: "string \<Rightarrow> (string \<times> string) list" where
  "digit_runs [] = []"
| "digit_runs (c # s) =
     (if is_digit c then map (\<lambda>(d, r). (c # d, r)) (digit_runs s) @ [([c], s)] else [])"

text \<open>\<^verbatim>\<open>(([0-9]+)c)?\<close> for a clip letter \<open>c\<close>: the captured digits, or \<open>None\<close> when skipped.\<close>

definition opt_clip :: "char \<Rightarrow> string \<Rightarrow> (string option \<times> string) list" where
  "opt_clip c s =
     concat (map (\<lambda>(d, r). case r of [] \<Rightarrow> [] | x # r' \<Rightarrow> if x = c then [(Some d, r')] else [])
               (digit_runs s))
     @ [(None, s)]"

text \<open>\<^verbatim>\<open>[0-9]+[^HS]\<close>: digits and one more character that is neither H nor S (a digit will do).\<close>

definition op_group :: "string \<Rightarrow> string list" where
  "op_group s =
     concat (map (\<lambda>(d, r). case r of [] \<Rightarrow> []
                  | x # r' \<Rightarrow> if x \<noteq> CHR ''H'' \<and> x \<noteq> CHR ''S'' then [r'] else [])
               (digit_runs s))"

text \<open>
  \<^verbatim>\<open>([0-9]+[^HS])+\<close>, greedy: after one group, more groups are tried before
  stopping. \<open>more_groups\<close> runs through the ways the first group can match, in order,
  and lists for each the matches that go on with further groups before the match that
  stops there. \<open>groups_rank\<close> is the termination measure: a group consumes at least
  two characters.
\<close>

definition groups_rank :: "string + string list \<Rightarrow> nat" where
  "groups_rank x =
     (case x of
        Inl s \<Rightarrow> 2 * length s + 2
      | Inr rs \<Rightarrow> if rs = [] then 0 else 2 * Max (length ` set rs) + 3)"

function op_groups :: "string \<Rightarrow> string list"
  and more_groups :: "string list \<Rightarrow> string list" where
  "op_groups s = more_groups (op_group s)"
| "more_groups [] = []"
| "more_groups (r # rs) = op_groups r @ [r] @ more_groups rs"
  by pat_completeness auto
termination
proof (relation "measures [groups_rank, \<lambda>x. case x of Inl s \<Rightarrow> 0 | Inr rs \<Rightarrow> length rs]")
  show "wf (measures [groups_rank, \<lambda>x. case x of Inl s \<Rightarrow> 0 | Inr rs \<Rightarrow> length rs])"
    by simp
next
  fix s :: string
  have runs: "(d, t) \<in> set (digit_runs u) \<Longrightarrow> length t < length u" for d t u
  proof (induction u arbitrary: d)
    case Nil
    then show ?case by simp
  next
    case (Cons a u)
    from Cons.prems have "t = u \<or> (\<exists>d'. (d', t) \<in> set (digit_runs u))"
      by (auto split: if_splits)
    then show ?case
    proof
      assume "t = u"
      then show ?thesis by simp
    next
      assume "\<exists>d'. (d', t) \<in> set (digit_runs u)"
      then obtain d' where "(d', t) \<in> set (digit_runs u)" ..
      then have "length t < length u" by (rule Cons.IH)
      then show ?thesis by simp
    qed
  qed
  have shorter: "length r < length s" if "r \<in> set (op_group s)" for r
  proof -
    from that obtain d x where "(d, x # r) \<in> set (digit_runs s)"
      by (auto simp: op_group_def split: list.splits if_splits)
    then show ?thesis using runs[of d "x # r" s] by simp
  qed
  have "groups_rank (Inr (op_group s)) < groups_rank (Inl s)"
  proof (cases "op_group s = []")
    case True
    then show ?thesis by (simp add: groups_rank_def)
  next
    case False
    define M where "M = Max (length ` set (op_group s))"
    have "M \<in> length ` set (op_group s)"
      unfolding M_def by (intro Max_in) (use False in auto)
    then have "M < length s" using shorter by auto
    with False show ?thesis by (simp add: groups_rank_def M_def[symmetric])
  qed
  then show "(Inr (op_group s), Inl s)
      \<in> measures [groups_rank, \<lambda>x. case x of Inl s \<Rightarrow> 0 | Inr rs \<Rightarrow> length rs]"
    by simp
next
  fix r :: string and rs :: "string list"
  have "length r \<le> Max (length ` set (r # rs))" by (intro Max_ge) auto
  then have "groups_rank (Inl r) < groups_rank (Inr (r # rs))"
    by (simp add: groups_rank_def del: set_simps)
  then show "(Inl r, Inr (r # rs))
      \<in> measures [groups_rank, \<lambda>x. case x of Inl s \<Rightarrow> 0 | Inr rs \<Rightarrow> length rs]"
    by simp
next
  fix r :: string and rs :: "string list"
  have "groups_rank (Inr rs) \<le> groups_rank (Inr (r # rs))"
  proof (cases "rs = []")
    case True
    then show ?thesis by (simp add: groups_rank_def)
  next
    case False
    have "Max (length ` set rs) \<le> Max (length ` set (r # rs))"
      by (intro Max_mono) (use False in auto)
    with False show ?thesis by (simp add: groups_rank_def del: set_simps)
  qed
  then show "(Inr rs, Inr (r # rs))
      \<in> measures [groups_rank, \<lambda>x. case x of Inl s \<Rightarrow> 0 | Inr rs \<Rightarrow> length rs]"
    by auto
qed

text \<open>
  The whole expression. \<^verbatim>\<open>$\<close> matches at the end of the text and before a final
  newline. The result is the dictionary of the four named groups, in the order LH, LS,
  RS, RH; \<^verbatim>\<open>re.search\<close> returns \<^verbatim>\<open>None\<close> when the list is empty.
\<close>

type_synonym clip_groups = "string option \<times> string option \<times> string option \<times> string option"

definition cigar_clip_matches :: "string \<Rightarrow> clip_groups list" where
  "cigar_clip_matches s =
     concat (map (\<lambda>(lh, r1).
       concat (map (\<lambda>(ls, r2).
         concat (map (\<lambda>r3.
           concat (map (\<lambda>(rs, r4).
             concat (map (\<lambda>(rh, r5).
               if r5 = [] \<or> r5 = [CHR 0x0A] then [(lh, ls, rs, rh)] else [])
             (opt_clip CHR ''H'' r4)))
           (opt_clip CHR ''S'' r3)))
         (op_groups r2)))
       (opt_clip CHR ''S'' r1)))
     (opt_clip CHR ''H'' s))"

definition cigar_clip_search :: "string \<Rightarrow> clip_groups option" where
  "cigar_clip_search s = (case cigar_clip_matches s of [] \<Rightarrow> None | m # _ \<Rightarrow> Some m)"

text \<open>The SAM flag bits, values of \<^verbatim>\<open>np.uint16\<close>.\<close>

definition mate_unmapped :: "16 word" where "mate_unmapped = 8"
definition read_reverse :: "16 word" where "read_reverse = 16"
definition mate_reverse :: "16 word" where "mate_reverse = 32"
definition secondary :: "16 word" where "secondary = 256"
definition supplementary :: "16 word" where "supplementary = 2048"

record SamEntry =
  flag :: "16 word"
  mate_diff_molecule :: bool
  pos :: int
  mapQ :: int
  cigar :: string
  tlen :: int
  left :: int
  right :: int

text \<open>
  \<^verbatim>\<open>c.isdigit()\<close>: among the code points below 256 the ASCII digits and the
  superscripts 2, 3 and 1, which \<^verbatim>\<open>int\<close> does not read.
\<close>

definition py_isdigit :: "char \<Rightarrow> bool" where
  "py_isdigit c = (is_digit c \<or> c \<in> set [CHR 0xB2, CHR 0xB3, CHR 0xB9])"

text \<open>
  The loop of \<^verbatim>\<open>get_aligned_pos\<close> over the characters of the CIGAR string, with
  \<^verbatim>\<open>num_str\<close> and \<^verbatim>\<open>num_aligned\<close> as accumulators;
  \<^verbatim>\<open>re.match('[MDX=N]', c)\<close> is membership in these five letters.
  \<^verbatim>\<open>
  for c in self.cigar:
      if c.isdigit():
          num_str += c
      else:
          if re.match(self.cigar_ref_chars, c):
              num_aligned += int(num_str)
          num_str = ''
  \<close>
\<close>

fun count_aligned :: "string \<Rightarrow> string \<Rightarrow> int \<Rightarrow> error + int" where
  "count_aligned [] num_str num_aligned = Inr num_aligned"
| "count_aligned (c # cs) num_str num_aligned =
     (if py_isdigit c then count_aligned cs (num_str @ [c]) num_aligned
      else if c \<in> set ''MDX=N'' then
        (case py_int num_str of
           Inl e \<Rightarrow> Inl e
         | Inr n \<Rightarrow> count_aligned cs [] (num_aligned + n))
      else count_aligned cs [] num_aligned)"

text \<open>
  \<^verbatim>\<open>get_aligned_pos\<close>, for position \<open>p\<close> and CIGAR string \<open>s\<close>. On a string the
  expression does not match, \<^verbatim>\<open>re.search(...)\<close> is \<^verbatim>\<open>None\<close> and
  \<^verbatim>\<open>.groupdict()\<close> raises \<^verbatim>\<open>AttributeError\<close>. A captured group is true in
  \<^verbatim>\<open>if clipped['LS']\<close> when it is a non-empty string.
\<close>

definition get_aligned_pos :: "int \<Rightarrow> string \<Rightarrow> error + (int \<times> int)" where
  "get_aligned_pos p s =
     (case cigar_clip_search s of
        None \<Rightarrow> Inl AttributeError
      | Some (lh, ls, rs, rh) \<Rightarrow>
          (case count_aligned s [] 0 of
             Inl e \<Rightarrow> Inl e
           | Inr num_aligned \<Rightarrow>
               (case (if ls \<noteq> None \<and> ls \<noteq> Some [] then map_sum id (\<lambda>n. p + n) (py_int (the ls))
                      else Inr p) of
                  Inl e \<Rightarrow> Inl e
                | Inr l \<Rightarrow> Inr (l, l + num_aligned))))"

text \<open>
  \<^verbatim>\<open>get_num_clipped\<close>: the sum of the captured groups, in the order of the
  dictionary.
\<close>

fun sum_groups :: "string option list \<Rightarrow> int \<Rightarrow> error + int" where
  "sum_groups [] clipped = Inr clipped"
| "sum_groups (g # gs) clipped =
     (if g \<noteq> None \<and> g \<noteq> Some [] then
        (case py_int (the g) of Inl e \<Rightarrow> Inl e | Inr n \<Rightarrow> sum_groups gs (clipped + n))
      else sum_groups gs clipped)"

definition get_num_clipped :: "string \<Rightarrow> error + int" where
  "get_num_clipped s =
     (case cigar_clip_search s of
        None \<Rightarrow> Inl AttributeError
      | Some (lh, ls, rs, rh) \<Rightarrow> sum_groups [lh, ls, rs, rh] 0)"

text \<open>
  \<^verbatim>\<open>SamEntry.__init__(FLAG, POS, MAPQ, CIGAR, RNEXT, TLEN)\<close>. The flag is taken as
  the 16-bit value \<^verbatim>\<open>np.uint16(FLAG)\<close>; the other numeric fields are text.
\<close>

definition SamEntry_init ::
  "16 word \<Rightarrow> string \<Rightarrow> string \<Rightarrow> string \<Rightarrow> string \<Rightarrow> string \<Rightarrow> error + SamEntry" where
  "SamEntry_init FLAG POS MAPQ CIGAR RNEXT TLEN =
     (case py_int POS of Inl e \<Rightarrow> Inl e | Inr p \<Rightarrow>
      case py_int MAPQ of Inl e \<Rightarrow> Inl e | Inr q \<Rightarrow>
      case py_int TLEN of Inl e \<Rightarrow> Inl e | Inr t \<Rightarrow>
      case get_aligned_pos p CIGAR of Inl e \<Rightarrow> Inl e | Inr (l, r) \<Rightarrow>
      Inr \<lparr>flag = FLAG, mate_diff_molecule = (\<not> str_in ''='' RNEXT), pos = p, mapQ = q,
           cigar = CIGAR, tlen = t, left = l, right = r\<rparr>)"
text \<open>The flag tests and the orientation heuristic of \<^verbatim>\<open>SamEntry\<close>; a masked flag is true when it is not zero.\<close>

definition is_rvs :: "SamEntry \<Rightarrow> bool" where
  "is_rvs e = ((flag e AND read_reverse) \<noteq> 0)"

definition has_unmapped_mate :: "SamEntry \<Rightarrow> bool" where
  "has_unmapped_mate e = ((flag e AND mate_unmapped) \<noteq> 0)"

definition mate_same_strand :: "SamEntry \<Rightarrow> bool" where
  "mate_same_strand e =
     (((flag e AND read_reverse) \<noteq> 0 \<and> (flag e AND mate_reverse) \<noteq> 0) \<or>
      (\<not> (flag e AND read_reverse) \<noteq> 0) \<and> (\<not> (flag e AND mate_reverse) \<noteq> 0))"

definition is_inverted :: "SamEntry \<Rightarrow> bool" where
  "is_inverted e =
     (if \<not> (flag e AND read_reverse) \<noteq> 0 then (if tlen e < 0 then True else False)
      else if tlen e > 0 then True
      else False)"

subsection \<open>Alignment statistics (\<^verbatim>\<open>sam.py\<close>, class AlignStats)\<close>

text \<open>
  A binning scheme as \<^verbatim>\<open>AlignStats\<close> uses it: an object with the attributes above
  and the method \<^verbatim>\<open>get_bin_coverage\<close>. The class is not among the source files, so
  the method is a field of the record, and what is proved of \<^verbatim>\<open>process\<close> holds
  for every such method. Its result is \<^verbatim>\<open>None\<close> or a coverage, which the code reads
  as \<^verbatim>\<open>cov[0][0]\<close>, \<^verbatim>\<open>cov[0][1]\<close>, \<^verbatim>\<open>cov[1][0]\<close> and
  \<^verbatim>\<open>cov[1][1]\<close>: a bin index and a credit for the left end, and the same for the
  right end.
\<close>

type_synonym coverage = "(int \<times> rat) \<times> (int \<times> rat)"

record CoverageBins = Bins +
  get_bin_coverage :: "int \<Rightarrow> int \<Rightarrow> coverage option"

definition READS :: int where "READS = 0"
definition ORPHANED :: int where "ORPHANED = 1"
definition INVERTED :: int where "INVERTED = 2"
definition SAMESTRAND :: int where "SAMESTRAND = 3"
definition SECONDARY :: int where "SECONDARY = 4"
definition SUPPLEMENTARY :: int where "SUPPLEMENTARY = 5"
definition CLIPPED :: int where "CLIPPED = 6"
definition DIFFMOL :: int where "DIFFMOL = 7"

text \<open>
  The state of an \<^verbatim>\<open>AlignStats\<close> object. For each binning scheme
  \<^verbatim>\<open>aln_stats\<close> holds an array of \<^verbatim>\<open>np.intc\<close> counters (32 bits, so that
  \<^verbatim>\<open>+= 1\<close> wraps), and \<^verbatim>\<open>fwd_inserts\<close> and \<^verbatim>\<open>rvs_inserts\<close> hold an
  array of Python lists of integers. The depth statistics are left out: lines 219 to 225
  of \<^verbatim>\<open>process\<close> build \<^verbatim>\<open>depth_cols\<close> and call \<^verbatim>\<open>add_to_depth\<close>,
  which writes to \<^verbatim>\<open>self.depth_stats\<close> only and whose line 205
  (\<^verbatim>\<open>+= self..depths.bins.size\<close>) is not Python; the model takes the call to
  return, and nothing below reads the depth statistics.
\<close>

record AlignStats =
  bkpt_bins :: "CoverageBins list"
  mapQT :: int
  clip_thresh :: int
  aln_stats :: "32 word list list list"
  fwd_inserts :: "int list list list"
  rvs_inserts :: "int list list list"

text \<open>
  An index into an axis of length \<open>n\<close> of a numpy array: a negative index counts from
  the end, and an index outside \<open>[-n, n)\<close> raises \<^verbatim>\<open>IndexError\<close>.
\<close>

definition np_index :: "nat \<Rightarrow> int \<Rightarrow> nat option" where
  "np_index n i =
     (if 0 \<le> i \<and> i < int n then Some (nat i)
      else if - int n \<le> i \<and> i < 0 then Some (nat (i + int n))
      else None)"

text \<open>
  \<^verbatim>\<open>add_to_aln_stats\<close>:
  \<^verbatim>\<open>
  for i in range(coverage[0][0], coverage[1][0]+1):
      for j in cols:
          self.aln_stats[idx][i][j] += 1
  \<close>
  \<open>incr_cols\<close> is the inner loop on the row it indexes, \<open>incr_rows\<close> the outer loop
  on the array of one scheme. When an exception is raised the model keeps the exception
  and not the partly updated state.
\<close>

fun incr_cols :: "32 word list \<Rightarrow> int list \<Rightarrow> error + 32 word list" where
  "incr_cols row [] = Inr row"
| "incr_cols row (j # js) =
     (case np_index (length row) j of
        None \<Rightarrow> Inl IndexError
      | Some c \<Rightarrow> incr_cols (row[c := row ! c + 1]) js)"

fun incr_rows :: "32 word list list \<Rightarrow> int list \<Rightarrow> int list \<Rightarrow> error + 32 word list list" where
  "incr_rows arr [] cols = Inr arr"
| "incr_rows arr (i # rest) cols =
     (if cols = [] then incr_rows arr rest cols
      else case np_index (length arr) i of
        None \<Rightarrow> Inl IndexError
      | Some r \<Rightarrow>
          (case incr_cols (arr ! r) cols of
             Inl er \<Rightarrow> Inl er
           | Inr row \<Rightarrow> incr_rows (arr[r := row]) rest cols))"

definition add_to_aln_stats :: "AlignStats \<Rightarrow> nat \<Rightarrow> coverage \<Rightarrow> int list \<Rightarrow> error + AlignStats" where
  "add_to_aln_stats a idx cov cols =
     (if [fst (fst cov)..fst (snd cov)] = [] \<or> cols = [] then Inr a
      else if idx < length (aln_stats a) then
        (case incr_rows (aln_stats a ! idx) [fst (fst cov)..fst (snd cov)] cols of
           Inl er \<Rightarrow> Inl er
         | Inr arr \<Rightarrow> Inr (a\<lparr>aln_stats := (aln_stats a)[idx := arr]\<rparr>))
      else Inl IndexError)"

text \<open>
  \<^verbatim>\<open>inserts[idx][b].append(v)\<close> on the list of arrays \<^verbatim>\<open>self.fwd_inserts\<close> or
  \<^verbatim>\<open>self.rvs_inserts\<close>.
\<close>

definition append_insert :: "int list list list \<Rightarrow> nat \<Rightarrow> int \<Rightarrow> int \<Rightarrow> error + int list list list" where
  "append_insert ins idx b v =
     (if idx < length ins then
        (case np_index (length (ins ! idx)) b of
           None \<Rightarrow> Inl IndexError
         | Some r \<Rightarrow> Inr (ins[idx := (ins ! idx)[r := ins ! idx ! r @ [v]]]))
      else Inl IndexError)"

text \<open>
  The body of the loop of \<^verbatim>\<open>process\<close> for the scheme \<open>scheme\<close> at index \<open>idx\<close>.
  Both \<^verbatim>\<open>continue\<close> statements leave the state as it is.
  \<^verbatim>\<open>
  cov = bins.get_bin_coverage(sam_entry.left, sam_entry.right)
  if cov is None:
      continue
  ...
  aln_cols = [AlignStats.READS]
  if (sam_entry.flag & SamEntry.secondary):
      aln_cols.append(AlignStats.SECONDARY)
  if (sam_entry.flag & SamEntry.supplementary):
      aln_cols.append(AlignStats.SUPPLEMENTARY)
  if sam_entry.get_num_clipped() >= self.clip_thresh:
      aln_cols.append(AlignStats.CLIPPED)
  if sam_entry.has_unmapped_mate():
      aln_cols.append(AlignStats.ORPHANED)
  else:
      if sam_entry.mate_diff_molecule:
          aln_cols.append(AlignStats.DIFFMOL)
      elif sam_entry.mate_same_strand():
          aln_cols.append(AlignStats.SAMESTRAND)
      elif sam_entry.is_inverted():
          aln_cols.append(AlignStats.INVERTED)
      else:
          if not sam_entry.tlen == 0 and sam_entry.mapQ > self.mapQT:
              if sam_entry.is_rvs():
                  ins_cov = bins.get_bin_coverage(sam_entry.right, sam_entry.right)
                  if ins_cov is None:
                      continue
                  self.rvs_inserts[idx][ins_cov[1][0]].append(-1 * sam_entry.tlen)
              else:
                  ins_cov = bins.get_bin_coverage(sam_entry.left, sam_entry.left)
                  if ins_cov is None:
                      continue
                  self.fwd_inserts[idx][ins_cov[0][0]].append(sam_entry.tlen)
  self.add_to_aln_stats(idx, cov, aln_cols)
  \<close>
\<close>

definition process_bins :: "AlignStats \<Rightarrow> nat \<Rightarrow> CoverageBins \<Rightarrow> SamEntry \<Rightarrow> error + AlignStats" where
  "process_bins a idx scheme e =
     (case get_bin_coverage scheme (left e) (right e) of
        None \<Rightarrow> Inr a
      | Some cov \<Rightarrow>
          let aln_cols = [READS];
              aln_cols = (if (flag e AND secondary) \<noteq> 0 then aln_cols @ [SECONDARY] else aln_cols);
              aln_cols = (if (flag e AND supplementary) \<noteq> 0 then aln_cols @ [SUPPLEMENTARY]
                          else aln_cols)
          in case get_num_clipped (cigar e) of
               Inl er \<Rightarrow> Inl er
             | Inr n \<Rightarrow>
                 let aln_cols = (if n \<ge> clip_thresh a then aln_cols @ [CLIPPED] else aln_cols) in
                 if has_unmapped_mate e then add_to_aln_stats a idx cov (aln_cols @ [ORPHANED])
                 else if mate_diff_molecule e then add_to_aln_stats a idx cov (aln_cols @ [DIFFMOL])
                 else if mate_same_strand e then
                   add_to_aln_stats a idx cov (aln_cols @ [SAMESTRAND])
                 else if is_inverted e then add_to_aln_stats a idx cov (aln_cols @ [INVERTED])
                 else if \<not> tlen e = 0 \<and> mapQ e > mapQT a then
                   (if is_rvs e then
                      (case get_bin_coverage scheme (right e) (right e) of
                         None \<Rightarrow> Inr a
                       | Some ins_cov \<Rightarrow>
                           (case append_insert (rvs_inserts a) idx (fst (snd ins_cov))
                                   (-1 * tlen e) of
                              Inl er \<Rightarrow> Inl er
                            | Inr ins \<Rightarrow> add_to_aln_stats (a\<lparr>rvs_inserts := ins\<rparr>) idx cov aln_cols))
                    else
                      (case get_bin_coverage scheme (left e) (left e) of
                         None \<Rightarrow> Inr a
                       | Some ins_cov \<Rightarrow>
                           (case append_insert (fwd_inserts a) idx (fst (fst ins_cov)) (tlen e) of
                              Inl er \<Rightarrow> Inl er
                            | Inr ins \<Rightarrow> add_to_aln_stats (a\<lparr>fwd_inserts := ins\<rparr>) idx cov aln_cols)))
                 else add_to_aln_stats a idx cov aln_cols)"

text \<open>\<^verbatim>\<open>process\<close>: the loop \<^verbatim>\<open>for idx, bins in enumerate(self.bkpt_bins)\<close>.\<close>

fun process_loop :: "AlignStats \<Rightarrow> nat \<Rightarrow> CoverageBins list \<Rightarrow> SamEntry \<Rightarrow> error + AlignStats" where
  "process_loop a idx [] e = Inr a"
| "process_loop a idx (scheme # rest) e =
     (case process_bins a idx scheme e of
        Inl er \<Rightarrow> Inl er
      | Inr a' \<Rightarrow> process_loop a' (Suc idx) rest e)"

definition process :: "AlignStats \<Rightarrow> SamEntry \<Rightarrow> error + AlignStats" where
  "process a e = process_loop a 0 (bkpt_bins a) e"

subsection \<open>The evidence categories of the specification\<close>

text \<open>
  The five evidence-intent categories and the priority order in which the specification
  attributes one of them to a record: mate unmapped, mate on another contig, mate on the
  same strand, inverted, and otherwise a correctly oriented pair. \<open>category_col\<close> is the
  counter of a category; a correctly oriented pair has none. \<open>always_cols\<close> are the
  counters that the specification applies whatever the category: the reads, and secondary,
  supplementary and clipped at or above the threshold, for a record that clips \<open>n\<close>
  bases.
\<close>

datatype category = Orphaned | Diffmol | Samestrand | Inverted | Correct

definition category_of :: "SamEntry \<Rightarrow> category" where
  "category_of e =
     (if has_unmapped_mate e then Orphaned
      else if mate_diff_molecule e then Diffmol
      else if mate_same_strand e then Samestrand
      else if is_inverted e then Inverted
      else Correct)"

definition category_col :: "category \<Rightarrow> int list" where
  "category_col c =
     (case c of Orphaned \<Rightarrow> [ORPHANED] | Diffmol \<Rightarrow> [DIFFMOL] | Samestrand \<Rightarrow> [SAMESTRAND]
      | Inverted \<Rightarrow> [INVERTED] | Correct \<Rightarrow> [])"

definition always_cols :: "AlignStats \<Rightarrow> SamEntry \<Rightarrow> int \<Rightarrow> int list" where
  "always_cols a e n =
     [READS] @ (if (flag e AND secondary) \<noteq> 0 then [SECONDARY] else [])
     @ (if (flag e AND supplementary) \<noteq> 0 then [SUPPLEMENTARY] else [])
     @ (if clip_thresh a \<le> n then [CLIPPED] else [])"

text \<open>
  The shapes of the statistics of scheme \<open>idx\<close>: one row of eight counters and one
  insert list in each direction for every bin. These are the shapes the allocation
  statements of \<^verbatim>\<open>__init__\<close> name (lines 188 to 193); the constructor itself cannot
  complete for a scheme, because line 187 passes \<^verbatim>\<open>dtype\<close> to \<^verbatim>\<open>list.append\<close>
  and builds a \<^verbatim>\<open>DepthStats\<close>, both of which raise.
\<close>

definition shaped :: "AlignStats \<Rightarrow> nat \<Rightarrow> CoverageBins \<Rightarrow> bool" where
  "shaped a idx scheme =
     (idx < length (aln_stats a) \<and> length (aln_stats a ! idx) = bin_count scheme \<and>
      list_all (\<lambda>row. length row = 8) (aln_stats a ! idx) \<and>
      idx < length (fwd_inserts a) \<and> length (fwd_inserts a ! idx) = bin_count scheme \<and>
      idx < length (rvs_inserts a) \<and> length (rvs_inserts a ! idx) = bin_count scheme)"

text \<open>A coverage whose two bin indices are bins of the scheme.\<close>

definition in_bins :: "CoverageBins \<Rightarrow> coverage \<Rightarrow> bool" where
  "in_bins scheme cov =
     (0 \<le> fst (fst cov) \<and> fst (fst cov) < int (bin_count scheme) \<and>
      0 \<le> fst (snd cov) \<and> fst (snd cov) < int (bin_count scheme))"

subsection \<open>Example data\<close>

text \<open>
  Five calls: \<open>x1\<close>, \<open>x2\<close>, \<open>x3\<close> share the event id \<open>e1\<close> and lie on three
  chromosomes; \<open>a\<close> and \<open>b\<close> name each other as mates and have no event id.
\<close>

definition rearrangement :: BNDs where
  "rearrangement = add_BND (add_BND (add_BND (add_BND (add_BND BNDs_init
      (breakend ''chr1'' 1000 ''x1'' None None (Some ''e1'')))
      (breakend ''chr2'' 5000 ''x2'' None None (Some ''e1'')))
      (breakend ''chr3'' 9000 ''x3'' None None (Some ''e1'')))
      (breakend ''chr1'' 1000 ''a'' (Some ''b'') None None))
      (breakend ''chr2'' 5000 ''b'' (Some ''a'') None None)"

text \<open>
  A chain of three calls without event id: \<open>a\<close> and \<open>b\<close> name each other as mates,
  \<open>b\<close> and \<open>c\<close> name each other as pairs; \<open>c\<close> lies 10 bp from \<open>b\<close>.
\<close>

definition chain :: BNDs where
  "chain = add_BND (add_BND (add_BND BNDs_init
      (breakend ''chr1'' 1000 ''a'' (Some ''b'') None None))
      (breakend ''chr2'' 5000 ''b'' (Some ''a'') (Some ''c'') None))
      (breakend ''chr2'' 5010 ''c'' None (Some ''b'') None)"

text \<open>
  The index of the example in the specification: calls on one chromosome at positions
  500 (end 1500), 1800 (end 1900) and 3000 (end 3100).
\<close>

definition sv_index_example :: VCFManager where
  "sv_index_example =
     \<lparr>samples = [],
      SVs = [''chr1'' \<mapsto> [500 \<mapsto> [sv_call ''chr1'' 500 1500],
                          1800 \<mapsto> [sv_call ''chr1'' 1800 1900],
                          3000 \<mapsto> [sv_call ''chr1'' 3000 3100]]],
      positions = [''chr1'' \<mapsto> [500, 1800, 3000]]\<rparr>"

text \<open>
  Depth statistics of two bins of 10 bases holding integer counts. Depth statistics of
  three bins and of two bins whose array has one row per bin and one column per tier, all
  zero. This is the layout that the allocation in \<^verbatim>\<open>__init__\<close> names,
  \<^verbatim>\<open>np.zeros((self.depth_bins.num, len(AlignStats.depth_cols)), dtype=dtype)\<close>, and
  that \<^verbatim>\<open>add_to_depth\<close> reads by \<^verbatim>\<open>depths[bin][col]\<close>. The allocation
  itself raises \<^verbatim>\<open>AttributeError\<close>, since neither \<^verbatim>\<open>self.depth_bins\<close> nor
  \<^verbatim>\<open>AlignStats.depth_cols\<close> exists (the class has \<^verbatim>\<open>self.bins\<close> and
  \<^verbatim>\<open>DepthStats.depth_cols\<close>), so the records below are the objects it is written
  to build, not objects it returns. Coverage sources for three and for two bins whose
  values fall as the quality floor rises.
\<close>

definition counted :: DepthStats where
  "counted = \<lparr>bins = \<lparr>chromosome = ''chr1'', start = 0, bin_size = 10, bin_count = 2\<rparr>,
              depths = \<lparr>dtype = intc, rows = [[100, 40, 10], [200, 0, 0]]\<rparr>,
              mapq_thresh = 30\<rparr>"

definition three_bins :: DepthStats where
  "three_bins = \<lparr>bins = \<lparr>chromosome = ''chr1'', start = 0, bin_size = 100, bin_count = 3\<rparr>,
                 depths = \<lparr>dtype = float64, rows = [[0, 0, 0], [0, 0, 0], [0, 0, 0]]\<rparr>,
                 mapq_thresh = 30\<rparr>"

definition two_bins :: DepthStats where
  "two_bins = \<lparr>bins = \<lparr>chromosome = ''chr1'', start = 0, bin_size = 100, bin_count = 2\<rparr>,
               depths = \<lparr>dtype = float64, rows = [[0, 0, 0], [0, 0, 0]]\<rparr>,
               mapq_thresh = 30\<rparr>"

definition coverage_example :: "int \<Rightarrow> int list" where
  "coverage_example min_Q =
     (if min_Q \<le> 0 then [10, 20, 30] else if min_Q < 30 then [8, 15, 30] else [5, 10, 20])"

definition coverage_two :: "int \<Rightarrow> int list" where
  "coverage_two min_Q = take 2 (coverage_example min_Q)"

text \<open>
  Modelled from the spec: a binning scheme whose method answers as the specification
  describes \<^verbatim>\<open>get_bin_coverage\<close>. The bin of a position is
  \<open>(position - start) div bin_size\<close>, and a position outside
  \<open>[start, start + bin_size * bin_count)\<close> has no bin; a span has a coverage when both
  its ends have a bin. The credits are the bases of the half-open span in the bin of its
  left end and, when that is another bin, in the bin of its right end; no statement reads
  them.
\<close>

definition bin_index_of :: "int \<Rightarrow> int \<Rightarrow> nat \<Rightarrow> int \<Rightarrow> int option" where
  "bin_index_of st sz n p =
     (if st \<le> p \<and> p < st + sz * int n then Some ((p - st) div sz) else None)"

definition spec_bin_coverage :: "int \<Rightarrow> int \<Rightarrow> nat \<Rightarrow> int \<Rightarrow> int \<Rightarrow> coverage option" where
  "spec_bin_coverage st sz n l r =
     (case bin_index_of st sz n l of
        None \<Rightarrow> None
      | Some bl \<Rightarrow>
          (case bin_index_of st sz n r of
             None \<Rightarrow> None
           | Some br \<Rightarrow>
               Some ((bl, of_int (min r (st + (bl + 1) * sz) - l)),
                     (br, if br = bl then 0 else of_int (r - (st + br * sz))))))"

definition spec_bins :: "string \<Rightarrow> int \<Rightarrow> int \<Rightarrow> nat \<Rightarrow> CoverageBins" where
  "spec_bins c st sz n =
     \<lparr>chromosome = c, start = st, bin_size = sz, bin_count = n,
      get_bin_coverage = spec_bin_coverage st sz n\<rparr>"

text \<open>
  Alignment statistics over one scheme of three bins of 100 bases from position 0, with
  all counters zero and all insert lists empty, thresholds as the defaults of
  \<^verbatim>\<open>__init__\<close>; and three records with CIGAR \<^verbatim>\<open>50M\<close> at position 150, so
  aligned from 150 to 200, of mapping quality 60: a reverse-strand read of a correctly
  oriented pair with template length -300, its forward-strand mate with template length
  300 at position 50, and a supplementary alignment with 10 clipped bases whose mate is
  unmapped and has no contig.
\<close>

definition stats_example :: AlignStats where
  "stats_example =
     \<lparr>bkpt_bins = [spec_bins ''chr1'' 0 100 3], mapQT = 30, clip_thresh = 1,
      aln_stats = [replicate 3 (replicate 8 0)],
      fwd_inserts = [replicate 3 []],
      rvs_inserts = [replicate 3 []]\<rparr>"

definition reverse_read :: SamEntry where
  "reverse_read =
     \<lparr>flag = 16, mate_diff_molecule = False, pos = 150, mapQ = 60, cigar = ''50M'',
      tlen = - 300, left = 150, right = 200\<rparr>"

definition forward_read :: SamEntry where
  "forward_read =
     \<lparr>flag = 32, mate_diff_molecule = False, pos = 50, mapQ = 60, cigar = ''50M'',
      tlen = 300, left = 50, right = 100\<rparr>"

definition orphan_read :: SamEntry where
  "orphan_read =
     \<lparr>flag = 8 + 2048, mate_diff_molecule = True, pos = 150, mapQ = 60, cigar = ''10S40M'',
      tlen = 0, left = 160, right = 200\<rparr>"

section \<open>Verified properties\<close>

subsection \<open>Breakend events: the two-locus limit\<close>

lemma breakend_is_constructed:
  "BND_SV_init ''chr1'' ''1000'' ''.'' ''BND'' ''.'' ''.'' ''.'' ''N[chr2:5000['' ''a'' ''b'' ''.'' ''.''
      None (Inr 0) = Inr (breakend ''chr1'' 1000 ''a'' (Some ''b'') None None)"
  by code_simp

lemma breakend_bad_mate_pos:
  "BND_SV_init ''chr1'' ''1000'' ''.'' ''BND'' ''.'' ''.'' ''.'' ''N[chr2:x['' ''a'' ''b'' ''.'' ''.''
      None (Inr 0) = Inl ValueError"
  by code_simp

lemma is_proximal_iff:
  "is_proximal delta ls bnd \<longleftrightarrow>
     (\<exists>(c, p) \<in> set ls. SV.chrom bnd = c \<and> \<bar>SV.pos bnd - p\<bar> \<le> delta)"
  by (induction ls) auto

lemma BND_Event_loop_append:
  "BND_Event_loop d m ls (xs @ ys) =
     (case BND_Event_loop d m ls xs of Inl e \<Rightarrow> Inl e | Inr l \<Rightarrow> BND_Event_loop d m l ys)"
  by (induction xs arbitrary: ls) auto

lemma BND_Event_loop_error: "BND_Event_loop d m ls xs = Inl e \<Longrightarrow> e = ValueError"
  by (induction xs arbitrary: ls) (auto split: if_splits)

lemma BND_Event_loop_length:
  "BND_Event_loop d 2 ls xs = Inr l \<Longrightarrow> length ls \<le> 2 \<Longrightarrow> length l \<le> 2"
  by (induction xs arbitrary: ls) (auto split: if_splits)

lemma is_proximal_member:
  "(SV.chrom bnd, SV.pos bnd) \<in> set ls \<Longrightarrow> 0 \<le> d \<Longrightarrow> is_proximal d ls bnd"
  by (induction ls) auto

lemma BND_Event_loop_distinct:
  "BND_Event_loop d m ls xs = Inr l \<Longrightarrow> 0 \<le> d \<Longrightarrow> distinct ls \<Longrightarrow> distinct l"
proof (induction xs arbitrary: ls)
  case Nil
  then show ?case by simp
next
  case (Cons x xs)
  show ?case
  proof (cases "ls \<noteq> [] \<and> is_proximal d ls x")
    case True
    with Cons.prems(1) have "BND_Event_loop d m ls xs = Inr l" by simp
    then show ?thesis using Cons.IH Cons.prems by blast
  next
    case False
    have new: "(SV.chrom x, SV.pos x) \<notin> set ls"
    proof
      assume m: "(SV.chrom x, SV.pos x) \<in> set ls"
      then have "ls \<noteq> []" by auto
      moreover have "is_proximal d ls x" using m Cons.prems(2) by (rule is_proximal_member)
      ultimately show False using False by simp
    qed
    from Cons.prems(1) False
    have "BND_Event_loop d m (ls @ [(SV.chrom x, SV.pos x)]) xs = Inr l"
      by (auto split: if_splits)
    moreover have "distinct (ls @ [(SV.chrom x, SV.pos x)])"
      using new Cons.prems(3) by simp
    ultimately show ?thesis using Cons.IH Cons.prems(2) by blast
  qed
qed

lemma BND_Event_loop_fails_iff:
  "BND_Event_loop d m ls0 xs = Inl e \<longleftrightarrow>
     e = ValueError \<and>
     (\<exists>pre b post l. xs = pre @ b # post \<and> BND_Event_loop d m ls0 pre = Inr l \<and>
        l \<noteq> [] \<and> \<not> is_proximal d l b \<and> \<not> length l < m)"
  (is "?L ls0 xs \<longleftrightarrow> ?R ls0 xs")
proof (induction xs arbitrary: ls0)
  case Nil
  then show ?case by simp
next
  case (Cons x xs)
  show ?case
  proof (cases "ls0 \<noteq> [] \<and> \<not> is_proximal d ls0 x \<and> \<not> length ls0 < m")
    case True
    then have L: "BND_Event_loop d m ls0 (x # xs) = Inl ValueError" by simp
    have "x # xs = [] @ x # xs \<and> BND_Event_loop d m ls0 [] = Inr ls0" by simp
    with True have "\<exists>pre b post l. x # xs = pre @ b # post \<and> BND_Event_loop d m ls0 pre = Inr l \<and>
        l \<noteq> [] \<and> \<not> is_proximal d l b \<and> \<not> length l < m" by blast
    with L show ?thesis by auto
  next
    case False
    define ls1 where "ls1 = (if ls0 \<noteq> [] \<and> is_proximal d ls0 x then ls0
                             else ls0 @ [(SV.chrom x, SV.pos x)])"
    have step: "BND_Event_loop d m ls0 (x # ys) = BND_Event_loop d m ls1 ys" for ys
      using False by (auto simp: ls1_def)
    have "?R ls0 (x # xs) \<longleftrightarrow> ?R ls1 xs"
    proof
      assume "?R ls0 (x # xs)"
      then obtain pre b post l where e: "e = ValueError" and
        eq: "x # xs = pre @ b # post" and pl: "BND_Event_loop d m ls0 pre = Inr l"
        and rj: "l \<noteq> []" "\<not> is_proximal d l b" "\<not> length l < m" by blast
      show "?R ls1 xs"
      proof (cases pre)
        case Nil
        with eq pl have "b = x" "l = ls0" by auto
        with rj False show ?thesis by blast
      next
        case (Cons p pre')
        with eq have "p = x" "xs = pre' @ b # post" by auto
        moreover from pl Cons \<open>p = x\<close> have "BND_Event_loop d m ls1 pre' = Inr l"
          using step by simp
        ultimately show ?thesis using e rj by blast
      qed
    next
      assume "?R ls1 xs"
      then obtain pre b post l where e: "e = ValueError" and
        eq: "xs = pre @ b # post" and pl: "BND_Event_loop d m ls1 pre = Inr l"
        and rj: "l \<noteq> []" "\<not> is_proximal d l b" "\<not> length l < m" by blast
      have "x # xs = (x # pre) @ b # post" using eq by simp
      moreover have "BND_Event_loop d m ls0 (x # pre) = Inr l" using pl step by simp
      ultimately show "?R ls0 (x # xs)" using e rj by blast
    qed
    then show ?thesis using Cons.IH[of ls1] step by simp
  qed
qed

lemma try_event_not_ValueError: "try_event st ids acc \<noteq> Inl ValueError"
  by (auto simp: try_event_def split: sum.splits)

lemma try_event_preserves:
  "try_event st ids acc = Inr acc' \<Longrightarrow> \<forall>ev\<in>set acc. P ev \<Longrightarrow>
   (\<And>bs ev. BND_Event_new bs = Inr ev \<Longrightarrow> P ev) \<Longrightarrow> \<forall>ev\<in>set acc'. P ev"
  by (auto simp: try_event_def split: sum.splits if_splits)

lemma events_loop_not_ValueError: "events_loop st es acc \<noteq> Inl ValueError"
  by (induction st es acc rule: events_loop.induct)
     (auto split: sum.splits simp: try_event_not_ValueError)

lemma events_loop_preserves:
  "events_loop st es acc = Inr acc' \<Longrightarrow> \<forall>ev\<in>set acc. P ev \<Longrightarrow>
   (\<And>bs ev. BND_Event_new bs = Inr ev \<Longrightarrow> P ev) \<Longrightarrow> \<forall>ev\<in>set acc'. P ev"
proof (induction st es acc rule: events_loop.induct)
  case (1 st acc)
  then show ?case by simp
next
  case (2 st e ids rest acc)
  from "2.prems"(1) obtain acc1 where t: "try_event st ids acc = Inr acc1"
    and r: "events_loop st rest acc1 = Inr acc'"
    by (auto split: sum.splits)
  have "\<forall>ev\<in>set acc1. P ev" using try_event_preserves[OF t "2.prems"(2)] "2.prems"(3) by blast
  then show ?case using "2.IH"[OF t r] "2.prems"(3) by blast
qed

lemma non_events_loop_not_ValueError: "non_events_loop ord st acc \<noteq> Inl ValueError"
proof (induction ord st acc rule: non_events_loop.induct)
  case (1 ord st acc)
  show ?case
  proof (cases "length (non_events st) > 0")
    case False
    then show ?thesis by (simp add: non_events_loop.simps[of ord st acc])
  next
    case True
    obtain ids st' where p: "pop_non_event (pop_choice ord (non_events st)) st = (ids, st')"
      by (cases "pop_non_event (pop_choice ord (non_events st)) st")
    show ?thesis
    proof (cases "try_event st' ids acc")
      case (Inl err)
      then have "err \<noteq> ValueError" using try_event_not_ValueError by metis
      then show ?thesis using True p Inl by (simp add: non_events_loop.simps[of ord st acc])
    next
      case (Inr acc1)
      then show ?thesis using True p "1.IH"[OF True p[symmetric] Inr]
        by (simp add: non_events_loop.simps[of ord st acc])
    qed
  qed
qed

lemma non_events_loop_preserves:
  "non_events_loop ord st acc = Inr acc' \<Longrightarrow> \<forall>ev\<in>set acc. P ev \<Longrightarrow>
   (\<And>bs ev. BND_Event_new bs = Inr ev \<Longrightarrow> P ev) \<Longrightarrow> \<forall>ev\<in>set acc'. P ev"
proof (induction ord st acc rule: non_events_loop.induct)
  case (1 ord st acc)
  show ?case
  proof (cases "length (non_events st) > 0")
    case False
    then show ?thesis using "1.prems" by (simp add: non_events_loop.simps[of ord st acc])
  next
    case True
    obtain ids st' where p: "pop_non_event (pop_choice ord (non_events st)) st = (ids, st')"
      by (cases "pop_non_event (pop_choice ord (non_events st)) st")
    from "1.prems"(1) True p obtain acc1 where t: "try_event st' ids acc = Inr acc1"
      and r: "non_events_loop ord st' acc1 = Inr acc'"
      by (auto simp: non_events_loop.simps[of ord st acc] split: sum.splits)
    have "\<forall>ev\<in>set acc1. P ev" using try_event_preserves[OF t "1.prems"(2)] "1.prems"(3) by blast
    then show ?thesis using "1.IH"[OF True p[symmetric] t r] "1.prems"(3) by blast
  qed
qed

text \<open>
  C6. \<^verbatim>\<open>BND_Event.__init__\<close> tests each call against the loci found so far with
  a window of 20 bp either side on the same chromosome. Construction raises
  \<^verbatim>\<open>ValueError\<close> exactly when some call is proximal to no locus while two loci
  are already held. A constructed event keeps its calls and has at most two loci, all
  distinct. In \<^verbatim>\<open>BNDs.get_events\<close> a group whose construction raises
  \<^verbatim>\<open>ValueError\<close> leaves the list of events as it was, \<^verbatim>\<open>get_events\<close>
  never ends in \<^verbatim>\<open>ValueError\<close>, and every event it returns has at most two
  distinct loci.
\<close>

theorem BND_Event_two_loci:
  "(is_proximal 20 ls b \<longleftrightarrow> (\<exists>(c, p)\<in>set ls. SV.chrom b = c \<and> \<bar>SV.pos b - p\<bar> \<le> 20)) \<and>
   (BND_Event_new xs = Inl e \<longleftrightarrow>
      e = ValueError \<and>
      (\<exists>pre x post l. xs = pre @ x # post \<and> BND_Event_loop 20 2 [] pre = Inr l \<and>
         length l = 2 \<and> \<not> is_proximal 20 l x)) \<and>
   (BND_Event_new ys = Inr ev \<longrightarrow> bnds ev = ys \<and> length (loci ev) \<le> 2 \<and> distinct (loci ev)) \<and>
   (lookup_all (BNDs st) ids = Inr zs \<and> BND_Event_new zs = Inl ValueError \<longrightarrow>
      try_event st ids acc = Inr acc) \<and>
   get_events ord st \<noteq> Inl ValueError \<and>
   (get_events ord st = Inr evs \<longrightarrow>
      (\<forall>ev'\<in>set evs. length (loci ev') \<le> 2 \<and> distinct (loci ev')))"
proof (intro conjI)
  show "is_proximal 20 ls b \<longleftrightarrow> (\<exists>(c, p)\<in>set ls. SV.chrom b = c \<and> \<bar>SV.pos b - p\<bar> \<le> 20)"
    by (rule is_proximal_iff)
next
  have len: "BND_Event_loop 20 2 [] pre = Inr l \<Longrightarrow> length l \<le> 2" for pre l
    using BND_Event_loop_length[of 20 "[]" pre l] by simp
  have "BND_Event_new xs = Inl e \<longleftrightarrow> BND_Event_loop 20 2 [] xs = Inl e"
    by (auto simp: BND_Event_new_def BND_Event_init_def split: sum.splits)
  also have "\<dots> \<longleftrightarrow> e = ValueError \<and>
      (\<exists>pre x post l. xs = pre @ x # post \<and> BND_Event_loop 20 2 [] pre = Inr l \<and>
         l \<noteq> [] \<and> \<not> is_proximal 20 l x \<and> \<not> length l < 2)"
    by (rule BND_Event_loop_fails_iff)
  also have "\<dots> \<longleftrightarrow> e = ValueError \<and>
      (\<exists>pre x post l. xs = pre @ x # post \<and> BND_Event_loop 20 2 [] pre = Inr l \<and>
         length l = 2 \<and> \<not> is_proximal 20 l x)"
  proof -
    have "BND_Event_loop 20 2 [] pre = Inr l \<Longrightarrow>
        (l \<noteq> [] \<and> \<not> is_proximal 20 l x \<and> \<not> length l < 2) = (length l = 2 \<and> \<not> is_proximal 20 l x)"
      for pre l x
      using len[of pre l] by auto
    then show ?thesis by metis
  qed
  finally show "BND_Event_new xs = Inl e \<longleftrightarrow>
      e = ValueError \<and>
      (\<exists>pre x post l. xs = pre @ x # post \<and> BND_Event_loop 20 2 [] pre = Inr l \<and>
         length l = 2 \<and> \<not> is_proximal 20 l x)" .
next
  show "BND_Event_new ys = Inr ev \<longrightarrow> bnds ev = ys \<and> length (loci ev) \<le> 2 \<and> distinct (loci ev)"
    using BND_Event_loop_length[of 20 "[]" ys] BND_Event_loop_distinct[of 20 2 "[]" ys]
    by (auto simp: BND_Event_new_def BND_Event_init_def split: sum.splits)
next
  show "lookup_all (BNDs st) ids = Inr zs \<and> BND_Event_new zs = Inl ValueError \<longrightarrow>
      try_event st ids acc = Inr acc"
    by (simp add: try_event_def)
next
  show "get_events ord st \<noteq> Inl ValueError"
    using events_loop_not_ValueError[of st "events st" "[]"] non_events_loop_not_ValueError[of ord st]
    by (auto simp: get_events_def split: sum.splits)
next
  have new: "BND_Event_new bs = Inr ev \<Longrightarrow> length (loci ev) \<le> 2 \<and> distinct (loci ev)" for bs ev
    using BND_Event_loop_length[of 20 "[]" bs] BND_Event_loop_distinct[of 20 2 "[]" bs]
    by (auto simp: BND_Event_new_def BND_Event_init_def split: sum.splits)
  show "get_events ord st = Inr evs \<longrightarrow>
      (\<forall>ev'\<in>set evs. length (loci ev') \<le> 2 \<and> distinct (loci ev'))"
  proof
    assume g: "get_events ord st = Inr evs"
    then obtain acc1 where a: "events_loop st (events st) [] = Inr acc1"
      and b: "non_events_loop ord st acc1 = Inr evs"
      by (auto simp: get_events_def split: sum.splits)
    have "\<forall>ev\<in>set acc1. length (loci ev) \<le> 2 \<and> distinct (loci ev)"
      by (rule events_loop_preserves[OF a]) (use new in auto)
    then show "\<forall>ev'\<in>set evs. length (loci ev') \<le> 2 \<and> distinct (loci ev')"
      by (rule non_events_loop_preserves[OF b]) (use new in auto)
  qed
qed

theorem BND_Event_two_loci_witness:
  "BND_Event_new [breakend ''chr1'' 1000 ''x1'' None None (Some ''e1''),
                  breakend ''chr2'' 5000 ''x2'' None None (Some ''e1''),
                  breakend ''chr3'' 9000 ''x3'' None None (Some ''e1'')] = Inl ValueError \<and>
   (\<exists>ev. BND_Event_new [breakend ''chr1'' 1000 ''a'' (Some ''b'') None None,
                         breakend ''chr2'' 5000 ''b'' (Some ''a'') None None] = Inr ev \<and>
         length (loci ev) \<le> 2 \<and> distinct (loci ev)) \<and>
   try_event rearrangement [''x1'', ''x2'', ''x3''] [] = Inr [] \<and>
   (\<exists>evs. get_events [] rearrangement = Inr evs \<and> length evs = 1 \<and>
          list_all (\<lambda>ev. length (loci ev) \<le> 2 \<and> distinct (loci ev)) evs)"
proof -
  let ?bad = "[breakend ''chr1'' 1000 ''x1'' None None (Some ''e1''),
               breakend ''chr2'' 5000 ''x2'' None None (Some ''e1''),
               breakend ''chr3'' 9000 ''x3'' None None (Some ''e1'')]"
  let ?good = "[breakend ''chr1'' 1000 ''a'' (Some ''b'') None None,
                breakend ''chr2'' 5000 ''b'' (Some ''a'') None None]"
  note T = BND_Event_two_loci[where xs = ?bad and e = ValueError and st = rearrangement
      and ids = "[''x1'', ''x2'', ''x3'']" and zs = ?bad and acc = "[]" and ord = "[]"]
  have pre: "?bad = [breakend ''chr1'' 1000 ''x1'' None None (Some ''e1''),
               breakend ''chr2'' 5000 ''x2'' None None (Some ''e1'')]
             @ breakend ''chr3'' 9000 ''x3'' None None (Some ''e1'') # []"
    by simp
  have lp: "BND_Event_loop 20 2 [] [breakend ''chr1'' 1000 ''x1'' None None (Some ''e1''),
               breakend ''chr2'' 5000 ''x2'' None None (Some ''e1'')]
            = Inr [(''chr1'', 1000), (''chr2'', 5000)]"
    by (simp add: breakend_def)
  have np: "\<not> is_proximal 20 [(''chr1'', 1000), (''chr2'', 5000)]
              (breakend ''chr3'' 9000 ''x3'' None None (Some ''e1''))"
    by (simp add: breakend_def)
  have bad: "BND_Event_new ?bad = Inl ValueError"
    using T pre lp np by (metis length_Cons list.size(3) numeral_2_eq_2)
  have lk: "lookup_all (BNDs rearrangement) [''x1'', ''x2'', ''x3''] = Inr ?bad"
    by (simp add: rearrangement_def add_BND_def BNDs_init_def breakend_def Let_def
        obj_in_ids_def set_add_def)
  have tr: "try_event rearrangement [''x1'', ''x2'', ''x3''] [] = Inr []"
    using T lk bad by blast
  have gd: "BND_Event_new ?good = Inr \<lparr>bnds = ?good, loci = [(''chr1'', 1000), (''chr2'', 5000)]\<rparr>"
    by (simp add: BND_Event_new_def BND_Event_init_def breakend_def)
  have gd2: "\<exists>ev. BND_Event_new ?good = Inr ev \<and> length (loci ev) \<le> 2 \<and> distinct (loci ev)"
    using gd BND_Event_two_loci[where ys = ?good] by blast
  have ge: "map_sum id length (get_events [] rearrangement) = Inr 1"
    by code_simp
  then obtain evs where evs: "get_events [] rearrangement = Inr evs" "length evs = 1"
    by (cases "get_events [] rearrangement") auto
  have "list_all (\<lambda>ev. length (loci ev) \<le> 2 \<and> distinct (loci ev)) evs"
    using evs(1) BND_Event_two_loci[where ord = "[]" and st = rearrangement and evs = evs]
    by (simp add: list_all_iff)
  with evs bad tr gd2 show ?thesis by blast
qed

subsection \<open>Breakend events and the order of the calls\<close>

lemma separated_proximal_iff:
  assumes sep: "separated S" and x: "x \<in> S" and ls: "set ls \<subseteq> locus_of ` S"
  shows "is_proximal 20 ls x \<longleftrightarrow> locus_of x \<in> set ls"
proof
  assume "is_proximal 20 ls x"
  then obtain c p where cp: "(c, p) \<in> set ls" "SV.chrom x = c" "\<bar>SV.pos x - p\<bar> \<le> 20"
    by (auto simp: is_proximal_iff)
  with ls obtain a where a: "a \<in> S" "locus_of a = (c, p)" by auto
  then have "SV.chrom a = c" "SV.pos a = p" by (auto simp: locus_of_def)
  with sep x a(1) cp have "SV.pos x = p" unfolding separated_def by metis
  with cp show "locus_of x \<in> set ls" by (simp add: locus_of_def)
next
  assume "locus_of x \<in> set ls"
  then show "is_proximal 20 ls x"
    using is_proximal_member[of x ls 20] by (simp add: locus_of_def)
qed

lemma BND_Event_loop_separated:
  assumes sep: "separated S"
  shows "set xs \<subseteq> S \<Longrightarrow> set ls \<subseteq> locus_of ` S \<Longrightarrow> distinct ls \<Longrightarrow> length ls \<le> 2 \<Longrightarrow>
    (card (set ls \<union> locus_of ` set xs) \<le> 2 \<longrightarrow>
        (\<exists>l. BND_Event_loop 20 2 ls xs = Inr l \<and> set l = set ls \<union> locus_of ` set xs)) \<and>
    (card (set ls \<union> locus_of ` set xs) > 2 \<longrightarrow> BND_Event_loop 20 2 ls xs = Inl ValueError)"
proof (induction xs arbitrary: ls)
  case Nil
  then have "card (set ls) \<le> 2" by (simp add: distinct_card)
  then show ?case by simp
next
  case (Cons x xs)
  have xS: "x \<in> S" and xsS: "set xs \<subseteq> S" using Cons.prems(1) by auto
  have prox: "is_proximal 20 ls x \<longleftrightarrow> locus_of x \<in> set ls"
    by (rule separated_proximal_iff[OF sep xS Cons.prems(2)])
  show ?case
  proof (cases "locus_of x \<in> set ls")
    case True
    then have ne: "ls \<noteq> []" by auto
    have step: "BND_Event_loop 20 2 ls (x # xs) = BND_Event_loop 20 2 ls xs"
      using True prox ne by simp
    have U: "set ls \<union> locus_of ` set (x # xs) = set ls \<union> locus_of ` set xs"
      using True by auto
    show ?thesis unfolding step U
      by (rule Cons.IH[OF xsS Cons.prems(2) Cons.prems(3) Cons.prems(4)])
  next
    case False
    then have np: "\<not> is_proximal 20 ls x" using prox by simp
    show ?thesis
    proof (cases "length ls < 2")
      case True
      let ?ls = "ls @ [(SV.chrom x, SV.pos x)]"
      have step: "BND_Event_loop 20 2 ls (x # xs) = BND_Event_loop 20 2 ?ls xs"
        using True np by simp
      have U: "set ls \<union> locus_of ` set (x # xs) = set ?ls \<union> locus_of ` set xs"
        by (auto simp: locus_of_def)
      have a: "set ?ls \<subseteq> locus_of ` S"
        using Cons.prems(2) xS by (auto simp: locus_of_def)
      have b: "distinct ?ls" using Cons.prems(3) False by (simp add: locus_of_def)
      have c: "length ?ls \<le> 2" using True by simp
      show ?thesis unfolding step U by (rule Cons.IH[OF xsS a b c])
    next
      case False
      then have l2: "length ls = 2" using Cons.prems(4) by simp
      then have ne: "ls \<noteq> []" by auto
      have step: "BND_Event_loop 20 2 ls (x # xs) = Inl ValueError"
        using False np ne by simp
      have "card (insert (locus_of x) (set ls)) = 3"
        using \<open>locus_of x \<notin> set ls\<close> l2 Cons.prems(3) by (simp add: distinct_card)
      moreover have "insert (locus_of x) (set ls) \<subseteq> set ls \<union> locus_of ` set (x # xs)" by auto
      moreover have "finite (set ls \<union> locus_of ` set (x # xs))" by simp
      ultimately have "card (set ls \<union> locus_of ` set (x # xs)) \<ge> 3"
        by (metis card_mono)
      then show ?thesis using step by simp
    qed
  qed
qed

text \<open>
  C7 (as amended). The claim that every reordering of the calls yields the same set of
  loci fails: a locus is the position of the first call, in list order, that is not within
  20 bp of an earlier locus, so the order decides which positions become loci (see
  \<open>BND_Event_reorder_counterexample\<close>). It holds when no two calls lie at different
  positions within 20 bp of each other on one chromosome: then every permutation of the
  list gives the same outcome, the same set of loci or \<^verbatim>\<open>ValueError\<close> in both
  orders.
\<close>

theorem BND_Event_reorder_separated:
  assumes "\<forall>a\<in>set xs. \<forall>b\<in>set xs.
      SV.chrom a = SV.chrom b \<and> \<bar>SV.pos a - SV.pos b\<bar> \<le> 20 \<longrightarrow> SV.pos a = SV.pos b"
    and "mset ys = mset xs"
  shows "map_sum id (\<lambda>ev. set (loci ev)) (BND_Event_new ys) =
         map_sum id (\<lambda>ev. set (loci ev)) (BND_Event_new xs)"
proof -
  have sep: "separated (set xs)" using assms(1) by (simp add: separated_def)
  have eq: "set ys = set xs" using assms(2) by (metis set_mset_mset)
  have R: "map_sum id (\<lambda>ev. set (loci ev)) (BND_Event_new zs) =
      (if card (locus_of ` set xs) \<le> 2 then Inr (locus_of ` set xs) else Inl ValueError)"
    if "set zs = set xs" for zs
  proof -
    have "(card (set [] \<union> locus_of ` set zs) \<le> 2 \<longrightarrow>
        (\<exists>l. BND_Event_loop 20 2 [] zs = Inr l \<and> set l = set [] \<union> locus_of ` set zs)) \<and>
      (card (set [] \<union> locus_of ` set zs) > 2 \<longrightarrow> BND_Event_loop 20 2 [] zs = Inl ValueError)"
      by (rule BND_Event_loop_separated[OF sep]) (use that in auto)
    then show ?thesis using that
      by (auto simp: BND_Event_new_def BND_Event_init_def split: sum.splits)
  qed
  show ?thesis using R[OF eq] R[of xs] by simp
qed

theorem BND_Event_reorder_counterexample:
  "map_sum id (\<lambda>ev. set (loci ev))
     (BND_Event_new [breakend ''chr1'' 100 ''A'' None None (Some ''e''),
                     breakend ''chr1'' 130 ''B'' None None (Some ''e''),
                     breakend ''chr1'' 115 ''C'' None None (Some ''e'')])
     = Inr {(''chr1'', 100), (''chr1'', 130)} \<and>
   map_sum id (\<lambda>ev. set (loci ev))
     (BND_Event_new [breakend ''chr1'' 115 ''C'' None None (Some ''e''),
                     breakend ''chr1'' 130 ''B'' None None (Some ''e''),
                     breakend ''chr1'' 100 ''A'' None None (Some ''e'')])
     = Inr {(''chr1'', 115)} \<and>
   {(''chr1'', 100::int), (''chr1'', 130)} \<noteq> {(''chr1'', 115)}"
  by (simp add: BND_Event_new_def BND_Event_init_def breakend_def)

theorem BND_Event_reorder_separated_witness:
  "map_sum id (\<lambda>ev. set (loci ev))
     (BND_Event_new [breakend ''chr2'' 5000 ''B'' None None (Some ''e''),
                     breakend ''chr1'' 1000 ''C'' None None (Some ''e''),
                     breakend ''chr1'' 1000 ''A'' None None (Some ''e'')])
   = Inr {(''chr1'', 1000), (''chr2'', 5000)}"
proof -
  let ?A = "breakend ''chr1'' 1000 ''A'' None None (Some ''e'')"
  let ?B = "breakend ''chr2'' 5000 ''B'' None None (Some ''e'')"
  let ?C = "breakend ''chr1'' 1000 ''C'' None None (Some ''e'')"
  have h1: "\<forall>a\<in>set [?A, ?B, ?C]. \<forall>b\<in>set [?A, ?B, ?C].
      SV.chrom a = SV.chrom b \<and> \<bar>SV.pos a - SV.pos b\<bar> \<le> 20 \<longrightarrow> SV.pos a = SV.pos b"
    by (simp add: breakend_def)
  have h2: "mset [?B, ?C, ?A] = mset [?A, ?B, ?C]" by (simp add: add.commute)
  have "map_sum id (\<lambda>ev. set (loci ev)) (BND_Event_new [?A, ?B, ?C])
      = Inr {(''chr1'', 1000), (''chr2'', 5000)}"
    by (simp add: BND_Event_new_def BND_Event_init_def breakend_def)
  with BND_Event_reorder_separated[OF h1 h2] show ?thesis by simp
qed

subsection \<open>The breakend graph: mate and pair links\<close>

lemma add_BND_pairs: "pairs (add_BND st b) = pairs st"
  by (simp add: add_BND_def Let_def split: option.splits)

lemma add_BND_all_pairs: "pairs (foldl add_BND BNDs_init calls) = Map.empty"
proof (induction calls rule: rev_induct)
  case Nil
  then show ?case by (simp add: BNDs_init_def)
next
  case (snoc x xs)
  then show ?case by (simp add: add_BND_pairs)
qed

lemma pop_non_event_group_size:
  "pairs st = Map.empty \<Longrightarrow> length (fst (pop_non_event ne st)) \<le> 2"
  by (simp add: pop_non_event_def Let_def split: option.splits)

lemma add_BND_mate_link:
  "mate_id b = Some m \<Longrightarrow> BNDs st m = Some mo \<Longrightarrow> pair_id b = None \<Longrightarrow> m \<noteq> bnd_id b \<Longrightarrow>
   mates (add_BND st b) (bnd_id b) = Some m \<and> mates (add_BND st b) m = Some (bnd_id b) \<and>
   map_option MATE (BNDs (add_BND st b) (bnd_id b)) = Some (Some m) \<and>
   map_option MATE (BNDs (add_BND st b) m) = Some (Some (bnd_id b))"
  by (simp add: add_BND_def Let_def split: option.splits)

lemma add_BND_pair_link:
  "pair_id b = Some p \<Longrightarrow> BNDs st p = Some po \<Longrightarrow> mate_id b = None \<Longrightarrow> p \<noteq> bnd_id b \<Longrightarrow>
   mates (add_BND st b) (bnd_id b) = Some p \<and> mates (add_BND st b) p = Some (bnd_id b) \<and>
   pairs (add_BND st b) = pairs st"
  by (simp add: add_BND_def Let_def split: option.splits)

text \<open>
  C8. \<^verbatim>\<open>add_BND\<close> links a call to an already registered mate in both directions,
  in \<^verbatim>\<open>mates\<close> and in the \<^verbatim>\<open>MATE\<close> back-references
  (\<open>add_BND_mate_link\<close>). A pair link is written into \<^verbatim>\<open>mates\<close> as well
  (\<open>add_BND_pair_link\<close>), where it replaces the mate link of the paired call;
  \<^verbatim>\<open>pairs\<close> stays empty for ever (\<open>add_BND_all_pairs\<close>), so the pair hops of
  \<^verbatim>\<open>pop_non_event\<close> never run and a group has at most two ids
  (\<open>pop_non_event_group_size\<close>). On the chain \<open>a\<close> - \<open>b\<close> (mates), \<open>b\<close> -
  \<open>c\<close> (pairs) the claim expects one event of three calls. Whichever id is popped first,
  the code returns two events of two calls each, with \<open>b\<close> in both.
\<close>

theorem pair_chain_not_grouped:
  "pairs chain ''a'' = None \<and> pairs chain ''b'' = None \<and> pairs chain ''c'' = None \<and>
   mates chain ''a'' = Some ''b'' \<and> mates chain ''b'' = Some ''c'' \<and> mates chain ''c'' = Some ''b'' \<and>
   map_sum id (map (map bnd_id \<circ> bnds)) (get_events [''a''] chain)
     = Inr [[''a'', ''b''], [''c'', ''b'']] \<and>
   map_sum id (map (map bnd_id \<circ> bnds)) (get_events [''b''] chain)
     = Inr [[''b'', ''c''], [''a'', ''b'']] \<and>
   map_sum id (map (map bnd_id \<circ> bnds)) (get_events [''c''] chain)
     = Inr [[''c'', ''b''], [''a'', ''b'']]"
  by code_simp

subsection \<open>SV records with a second contig\<close>

lemma py_int_plain:
  "py_int ''0'' = Inr 0" "py_int ''500'' = Inr 500" "py_int ''1000'' = Inr 1000"
  "py_int ''5000'' = Inr 5000" "py_int ''.'' = Inl ValueError"
  by (simp_all add: py_int_def literal_val_def strip_blanks_def is_blank_def is_digit_def
      digits_val_def digit_val_def)

text \<open>
  C10 (as amended). When the \<^verbatim>\<open>chr2\<close> field is present (not \<^verbatim>\<open>'.'\<close>) and
  \<^verbatim>\<open>SV.__init__\<close> completes, the record's end equals its pos, the end value read
  before (the END field, or pos when END is no integer) is stored as
  \<^verbatim>\<open>chr2_pos\<close>, and with neither SVLEN nor INSLEN given the length is 1 when pos
  is not 0. At pos 0 the test \<^verbatim>\<open>if self.pos and self.end\<close> is false and the
  length is \<^verbatim>\<open>None\<close>, which is where the claim as stated fails.
\<close>

theorem SV_init_chr2_point:
  assumes "SV_init c p e t sl il c2 gts af = Inr sv" and "c2 \<noteq> ''.''"
  shows "sv_end sv = SV.pos sv \<and> chr2 sv = Some c2 \<and>
         chr2_pos sv = Some (case py_int e of Inl _ \<Rightarrow> SV.pos sv | Inr x \<Rightarrow> x) \<and>
         (sl = ''.'' \<and> il = ''.'' \<and> SV.pos sv \<noteq> 0 \<longrightarrow> len sv = Some 1) \<and>
         (sl = ''.'' \<and> il = ''.'' \<and> SV.pos sv = 0 \<longrightarrow> len sv = None)"
  using assms
  by (auto simp: SV_init_def Let_def split: sum.splits if_splits)

theorem SV_init_chr2_point_counterexample:
  "map_sum id (\<lambda>sv. (SV.pos sv, sv_end sv, chr2_pos sv, len sv))
     (SV_init ''chr1'' ''0'' ''500'' ''TRA'' ''.'' ''.'' ''chr2'' None (Inr 0))
   = Inr (0, 0, Some 500, None)"
  by (simp add: SV_init_def py_int_plain)

theorem SV_init_chr2_point_witness:
  "map_sum id (\<lambda>sv. (SV.pos sv, sv_end sv, chr2 sv, chr2_pos sv, len sv))
     (SV_init ''chr1'' ''1000'' ''5000'' ''TRA'' ''.'' ''.'' ''chr5'' None (Inr 0))
   = Inr (1000, 1000, Some ''chr5'', Some 5000, Some 1)"
proof -
  obtain sv where sv: "SV_init ''chr1'' ''1000'' ''5000'' ''TRA'' ''.'' ''.'' ''chr5'' None (Inr 0) = Inr sv"
    by (simp add: SV_init_def py_int_plain)
  have p: "SV.pos sv = 1000" using sv by (auto simp: SV_init_def py_int_plain)
  have "''chr5'' \<noteq> ''.''" by simp
  from SV_init_chr2_point[OF sv this] p show ?thesis
    by (simp add: sv py_int_plain)
qed

subsection \<open>Range queries over the SV index\<close>

lemma svs_at_pos_filter:
  "svs_at_pos svs s e = filter (\<lambda>sv. SV.pos sv \<le> e \<and> s \<le> sv_end sv) svs"
  by (induction svs) auto

lemma scan_positions_takeWhile:
  "set ps \<subseteq> dom m \<Longrightarrow>
   scan_positions (Some m) ps s e =
     Inr (concat (map (\<lambda>k. filter (\<lambda>sv. SV.pos sv \<le> e \<and> s \<le> sv_end sv) (the (m k)))
            (takeWhile (\<lambda>k. k \<le> e) ps)))"
proof (induction ps)
  case Nil
  then show ?case by simp
next
  case (Cons p ps)
  then obtain svs where "m p = Some svs" by auto
  with Cons show ?case by (simp add: svs_at_pos_filter)
qed

lemma sorted_takeWhile_le:
  "sorted ps \<Longrightarrow> set (takeWhile (\<lambda>k. k \<le> e) ps) = {k \<in> set ps. k \<le> (e::int)}"
proof (induction ps)
  case Nil
  then show ?case by simp
next
  case (Cons p ps)
  then show ?case by (auto)
qed

lemma get_svs_in_range_unknown_chrom:
  "positions st c = None \<Longrightarrow> get_svs_in_range st c s e None = Inr []"
  by (simp add: get_svs_in_range_def)

text \<open>
  C9. For an index as \<^verbatim>\<open>set_svs\<close> builds it (the position list of the chromosome
  is the sorted list of the keys of its dictionary, and every record is stored under its
  own \<^verbatim>\<open>pos\<close>), records with \<open>pos \<le> end\<close> and a query with \<open>start \<le> end\<close>,
  \<^verbatim>\<open>get_svs_in_range(chrom, start, end)\<close> returns exactly the indexed records whose
  interval \<open>[pos, end]\<close> meets \<open>[start, end]\<close>: the result is the concatenation, over the
  positions up to the first one beyond the query end, of the records there that pass the
  two tests, and it is in ascending order of position.
\<close>

theorem get_svs_in_range_intersecting:
  assumes "positions st c = Some ps" and "SVs st c = Some m"
    and "sorted ps" and "set ps = dom m"
    and "\<forall>k svs. m k = Some svs \<longrightarrow> (\<forall>sv\<in>set svs. SV.pos sv = k \<and> SV.pos sv \<le> sv_end sv)"
    and "s \<le> e"
  shows "\<exists>ret. get_svs_in_range st c s e None = Inr ret \<and>
           ret = concat (map (\<lambda>k. filter (\<lambda>sv. SV.pos sv \<le> e \<and> s \<le> sv_end sv) (the (m k)))
                   (takeWhile (\<lambda>k. k \<le> e) ps)) \<and>
           set ret = {sv. (\<exists>k svs. m k = Some svs \<and> sv \<in> set svs) \<and>
                          {SV.pos sv .. sv_end sv} \<inter> {s .. e} \<noteq> {}} \<and>
           sorted (map SV.pos ret)"
proof -
  let ?f = "\<lambda>k. filter (\<lambda>sv. SV.pos sv \<le> e \<and> s \<le> sv_end sv) (the (m k))"
  let ?ret = "concat (map ?f (takeWhile (\<lambda>k. k \<le> e) ps))"
  have sub: "set ps \<subseteq> dom m" using assms(4) by simp
  have r: "get_svs_in_range st c s e None = Inr ?ret"
    using assms(1,2) scan_positions_takeWhile[OF sub, of s e]
    by (simp add: get_svs_in_range_def)
  have tw: "set (takeWhile (\<lambda>k. k \<le> e) ps) = {k \<in> dom m. k \<le> e}"
    using sorted_takeWhile_le[OF assms(3)] assms(4) by simp
  have inter: "{SV.pos sv .. sv_end sv} \<inter> {s .. e} \<noteq> {} \<longleftrightarrow> SV.pos sv \<le> e \<and> s \<le> sv_end sv"
    if "SV.pos sv \<le> sv_end sv" for sv
  proof -
    have "{SV.pos sv .. sv_end sv} \<inter> {s .. e} = {max (SV.pos sv) s .. min (sv_end sv) e}"
      by auto
    then show ?thesis using that assms(6) by auto
  qed
  have "set ?ret = {sv. (\<exists>k svs. m k = Some svs \<and> sv \<in> set svs) \<and>
                          {SV.pos sv .. sv_end sv} \<inter> {s .. e} \<noteq> {}}"
  proof (intro set_eqI iffI)
    fix sv assume "sv \<in> set ?ret"
    then obtain k where k: "k \<in> dom m" "k \<le> e" "sv \<in> set (?f k)"
      using tw by auto
    then obtain svs where svs: "m k = Some svs" by auto
    with k have mem: "sv \<in> set svs" "SV.pos sv \<le> e" "s \<le> sv_end sv" by auto
    with assms(5) svs have "SV.pos sv \<le> sv_end sv" by blast
    with mem svs inter show "sv \<in> {sv. (\<exists>k svs. m k = Some svs \<and> sv \<in> set svs) \<and>
                          {SV.pos sv .. sv_end sv} \<inter> {s .. e} \<noteq> {}}" by blast
  next
    fix sv assume "sv \<in> {sv. (\<exists>k svs. m k = Some svs \<and> sv \<in> set svs) \<and>
                          {SV.pos sv .. sv_end sv} \<inter> {s .. e} \<noteq> {}}"
    then obtain k svs where ks: "m k = Some svs" "sv \<in> set svs"
      and ne: "{SV.pos sv .. sv_end sv} \<inter> {s .. e} \<noteq> {}" by blast
    from assms(5) ks have pk: "SV.pos sv = k" "SV.pos sv \<le> sv_end sv" by blast+
    with inter ne have io: "SV.pos sv \<le> e" "s \<le> sv_end sv" by blast+
    have "k \<in> set (takeWhile (\<lambda>k. k \<le> e) ps)" using tw ks(1) pk(1) io(1) by auto
    moreover have "sv \<in> set (?f k)" using ks io by simp
    ultimately show "sv \<in> set ?ret" by auto
  qed
  moreover have "sorted (map SV.pos ?ret)"
  proof -
    have key: "\<forall>sv\<in>set (?f k). SV.pos sv = k" if "k \<in> dom m" for k
      using that assms(5) by auto
    have "sorted (map SV.pos (concat (map ?f qs)))" if "sorted qs" "set qs \<subseteq> dom m" for qs
      using that
    proof (induction qs)
      case Nil
      then show ?case by simp
    next
      case (Cons q qs)
      have "q \<in> dom m" using Cons.prems(2) by simp
      then have a: "\<forall>sv\<in>set (?f q). SV.pos sv = q" by (rule key)
      have b: "\<forall>sv\<in>set (concat (map ?f qs)). q \<le> SV.pos sv"
      proof
        fix sv assume "sv \<in> set (concat (map ?f qs))"
        then obtain k where k: "k \<in> set qs" "sv \<in> set (?f k)" by auto
        then have "k \<in> dom m" using Cons.prems(2) by auto
        then have "SV.pos sv = k" using key[of k] k(2) by blast
        then show "q \<le> SV.pos sv" using Cons.prems(1) k(1) by auto
      qed
      have "map SV.pos (?f q) = replicate (length (?f q)) q"
        using a by (simp add: map_replicate_const[symmetric] cong: map_cong)
      then have c: "sorted (map SV.pos (?f q))" by (simp add: sorted_replicate)
      show ?case using a b c Cons by (auto simp: sorted_append)
    qed
    moreover have "sorted (takeWhile (\<lambda>k. k \<le> e) ps)" using assms(3) by (rule sorted_takeWhile)
    moreover have "set (takeWhile (\<lambda>k. k \<le> e) ps) \<subseteq> dom m" using tw by auto
    ultimately show ?thesis by blast
  qed
  ultimately show ?thesis using r by blast
qed

theorem get_svs_in_range_intersecting_witness:
  "get_svs_in_range sv_index_example ''chr1'' 1000 2000 None =
     Inr [sv_call ''chr1'' 500 1500, sv_call ''chr1'' 1800 1900] \<and>
   sv_call ''chr1'' 3000 3100 \<notin> set [sv_call ''chr1'' 500 1500, sv_call ''chr1'' 1800 1900]"
proof -
  let ?m = "[500 \<mapsto> [sv_call ''chr1'' 500 1500], 1800 \<mapsto> [sv_call ''chr1'' 1800 1900],
             3000 \<mapsto> [sv_call ''chr1'' 3000 3100]] :: int \<rightharpoonup> SV list"
  have h1: "positions sv_index_example ''chr1'' = Some [500, 1800, 3000]"
    by (simp add: sv_index_example_def)
  have h2: "SVs sv_index_example ''chr1'' = Some ?m"
    by (simp add: sv_index_example_def)
  have h3: "sorted [500, 1800, 3000 :: int]" by simp
  have h4: "set [500, 1800, 3000 :: int] = dom ?m" by auto
  have h5: "\<forall>k svs. ?m k = Some svs \<longrightarrow> (\<forall>sv\<in>set svs. SV.pos sv = k \<and> SV.pos sv \<le> sv_end sv)"
    by (auto simp: sv_call_def split: if_splits)
  have h6: "(1000 :: int) \<le> 2000" by simp
  from get_svs_in_range_intersecting[OF h1 h2 h3 h4 h5 h6]
  have "get_svs_in_range sv_index_example ''chr1'' 1000 2000 None =
      Inr (concat (map (\<lambda>k. filter (\<lambda>sv. SV.pos sv \<le> 2000 \<and> 1000 \<le> sv_end sv) (the (?m k)))
             (takeWhile (\<lambda>k. k \<le> 2000) [500, 1800, 3000])))"
    by blast
  then show ?thesis by (simp add: sv_call_def)
qed

subsection \<open>Depth tiers\<close>

lemma np_store_float: "np_store float64 = id"
  by (auto simp: np_store_def fun_eq_iff)

text \<open>
  C4. The array has one row per bin and one column per tier, but
  \<^verbatim>\<open>set_depths\<close> addresses it by tier along the first axis
  (\<^verbatim>\<open>self.depths[DepthStats.TOTAL] = ...\<close> assigns row 0). With three bins the
  assignments succeed and store the tiers across the bins: the row of bin 0 holds the
  totals of the three bins, 10, 20 and 30, as its total, below-threshold and zero-quality
  tiers, which do not reconcile with the coverage 5 at and above the threshold; nothing
  is raised. With two bins the first assignment cannot broadcast two values into a row
  of three and raises \<^verbatim>\<open>ValueError\<close>, so nothing is populated. The claim expects,
  for each bin, three tiers that reconcile, and a fatal check.
\<close>

theorem set_depths_axis_slip:
  "(\<exists>ds'. set_depths three_bins coverage_example = Inr ds' \<and>
      rows (depths ds') = [[10, 20, 30], [3, 5, 10], [2, 5, 0]] \<and>
      rows (depths ds') ! 0 ! TOTAL \<noteq>
        rows (depths ds') ! 0 ! MAPQ0 + rows (depths ds') ! 0 ! MAPQLTT
        + of_int (coverage_example 30 ! 0)) \<and>
   set_depths two_bins coverage_two = Inl ValueError"
  by (simp add: set_depths_def Let_def np_setrow_def np_getrow_def np_sub_def broadcast_to_def
      TOTAL_def MAPQ0_def MAPQLTT_def three_bins_def two_bins_def coverage_example_def
      coverage_two_def np_store_float)

lemma convert_depths_never_fails: "\<exists>ds'. convert_depths ds = Inr ds'"
  by (simp add: convert_depths_def py_is_def np_float_def)

text \<open>
  C5. The guard of \<^verbatim>\<open>convert_depths\<close> compares a dtype object with the class
  \<^verbatim>\<open>float\<close> by identity and is never true, so no call raises
  (\<open>convert_depths_never_fails\<close>). On integer counts in bins of 10 bases, the first call
  divides by 10 and marks the array as float; the claim expects the second call to fail,
  and the code divides by 10 once more.
\<close>

theorem convert_depths_twice:
  "map_sum id (\<lambda>ds. (dtype (depths ds), rows (depths ds))) (convert_depths counted)
     = Inr (float64, [[10, 4, 1], [20, 0, 0]]) \<and>
   (\<exists>once. convert_depths counted = Inr once \<and>
      map_sum id (\<lambda>ds. (dtype (depths ds), rows (depths ds))) (convert_depths once)
        = Inr (float64, [[1, 2 / 5, 1 / 10], [2, 0, 0]]))"
  by (simp add: convert_depths_def py_is_def np_float_def counted_def np_divide_def astype_float_def)

subsection \<open>Alignment statistics\<close>

lemma np_index_within: "0 \<le> i \<Longrightarrow> i < int n \<Longrightarrow> np_index n i = Some (nat i)"
  by (simp add: np_index_def)

lemma count_list_distinct: "distinct xs \<Longrightarrow> count_list xs x = (if x \<in> set xs then 1 else 0)"
  by (induction xs) auto

lemma incr_cols_within:
  assumes "\<forall>j\<in>set cols. 0 \<le> j \<and> j < int (length row)"
  shows "\<exists>row'. incr_cols row cols = Inr row' \<and> length row' = length row \<and>
           (\<forall>c < length row. row' ! c = row ! c + of_nat (count_list cols (int c)))"
  using assms
proof (induction cols arbitrary: row)
  case Nil
  then show ?case by simp
next
  case (Cons j js)
  from Cons.prems have j: "0 \<le> j" "j < int (length row)" by auto
  let ?row = "row[nat j := row ! nat j + 1]"
  have "\<forall>k\<in>set js. 0 \<le> k \<and> k < int (length ?row)" using Cons.prems by simp
  from Cons.IH[OF this] obtain row' where r: "incr_cols ?row js = Inr row'"
    "length row' = length ?row"
    "\<forall>c < length ?row. row' ! c = ?row ! c + of_nat (count_list js (int c))"
    by blast
  have "incr_cols row (j # js) = Inr row'"
    using j r(1) by (simp add: np_index_within)
  moreover have "length row' = length row" using r(2) by simp
  moreover have "row' ! c = row ! c + of_nat (count_list (j # js) (int c))"
    if "c < length row" for c
  proof (cases "c = nat j")
    case True
    then have "int c = j" using j by simp
    with r(3) that True show ?thesis by simp
  next
    case False
    then have "int c \<noteq> j" using j by auto
    with r(3) that False show ?thesis by simp
  qed
  ultimately show ?case by blast
qed

lemma incr_rows_within:
  assumes "\<forall>i\<in>set rs. 0 \<le> i \<and> i < int (length arr)"
    and "\<forall>j\<in>set cols. 0 \<le> j \<and> j < int w"
    and "\<forall>row\<in>set arr. length row = w"
  shows "\<exists>arr'. incr_rows arr rs cols = Inr arr' \<and> length arr' = length arr \<and>
           (\<forall>row\<in>set arr'. length row = w) \<and>
           (\<forall>r < length arr. \<forall>c < w.
              arr' ! r ! c = arr ! r ! c + of_nat (count_list rs (int r) * count_list cols (int c)))"
  using assms
proof (induction rs arbitrary: arr)
  case Nil
  then show ?case by simp
next
  case (Cons i rest)
  show ?case
  proof (cases "cols = []")
    case True
    have "\<forall>k\<in>set rest. 0 \<le> k \<and> k < int (length arr)" using Cons.prems(1) by simp
    from Cons.IH[OF this Cons.prems(2) Cons.prems(3)] True show ?thesis by simp
  next
    case False
    from Cons.prems have i: "0 \<le> i" "i < int (length arr)" by auto
    then have len: "length (arr ! nat i) = w" using Cons.prems(3) by simp
    have "\<forall>j\<in>set cols. 0 \<le> j \<and> j < int (length (arr ! nat i))"
      using Cons.prems(2) len by simp
    from incr_cols_within[OF this] obtain row' where row:
      "incr_cols (arr ! nat i) cols = Inr row'" "length row' = w"
      "\<forall>c < w. row' ! c = arr ! nat i ! c + of_nat (count_list cols (int c))"
      using len by auto
    let ?arr = "arr[nat i := row']"
    have a1: "\<forall>k\<in>set rest. 0 \<le> k \<and> k < int (length ?arr)" using Cons.prems(1) by simp
    have a3: "\<forall>r\<in>set ?arr. length r = w"
      using Cons.prems(3) row(2) by (auto dest: set_update_subset_insert[THEN subsetD])
    from Cons.IH[OF a1 Cons.prems(2) a3] obtain arr' where arr:
      "incr_rows ?arr rest cols = Inr arr'" "length arr' = length ?arr"
      "\<forall>row\<in>set arr'. length row = w"
      "\<forall>r < length ?arr. \<forall>c < w.
         arr' ! r ! c = ?arr ! r ! c + of_nat (count_list rest (int r) * count_list cols (int c))"
      by blast
    have "incr_rows arr (i # rest) cols = Inr arr'"
      using False i row(1) arr(1) by (simp add: np_index_within)
    moreover have "length arr' = length arr" using arr(2) by simp
    moreover have "arr' ! r ! c
        = arr ! r ! c + of_nat (count_list (i # rest) (int r) * count_list cols (int c))"
      if "r < length arr" "c < w" for r c
    proof (cases "r = nat i")
      case True
      then have "int r = i" using i by simp
      moreover have "?arr ! r ! c = arr ! r ! c + of_nat (count_list cols (int c))"
        using True that row(3) by simp
      ultimately show ?thesis using arr(4) that by (simp add: algebra_simps)
    next
      case False
      then have "int r \<noteq> i" using i by auto
      moreover have "?arr ! r = arr ! r" using False by simp
      ultimately show ?thesis using arr(4) that by simp
    qed
    ultimately show ?thesis using arr(3) by blast
  qed
qed
lemma add_to_aln_stats_within:
  assumes "idx < length (aln_stats a)" and "length (aln_stats a ! idx) = bin_count scheme"
    and "list_all (\<lambda>row. length row = 8) (aln_stats a ! idx)"
    and "in_bins scheme cov"
    and "distinct cols" and "\<forall>j\<in>set cols. 0 \<le> j \<and> j < 8"
  shows "\<exists>a'. add_to_aln_stats a idx cov cols = Inr a' \<and>
           fwd_inserts a' = fwd_inserts a \<and> rvs_inserts a' = rvs_inserts a \<and>
           (\<forall>i < bin_count scheme. \<forall>j < 8.
              aln_stats a' ! idx ! i ! j =
                aln_stats a ! idx ! i ! j +
                (if fst (fst cov) \<le> int i \<and> int i \<le> fst (snd cov) \<and> int j \<in> set cols
                 then 1 else 0))"
proof (cases "[fst (fst cov)..fst (snd cov)] = [] \<or> cols = []")
  case True
  then have "add_to_aln_stats a idx cov cols = Inr a" by (simp add: add_to_aln_stats_def)
  moreover have "\<forall>i < bin_count scheme. \<forall>j < 8.
      aln_stats a ! idx ! i ! j =
        aln_stats a ! idx ! i ! j +
        (if fst (fst cov) \<le> int i \<and> int i \<le> fst (snd cov) \<and> int j \<in> set cols
         then 1 else 0)"
    using True by auto
  ultimately show ?thesis by blast
next
  case False
  let ?arr = "aln_stats a ! idx"
  let ?rs = "[fst (fst cov)..fst (snd cov)]"
  have r1: "\<forall>i\<in>set ?rs. 0 \<le> i \<and> i < int (length ?arr)"
    using assms(2,4) by (auto simp: in_bins_def)
  have r2: "\<forall>j\<in>set cols. 0 \<le> j \<and> j < int 8" using assms(6) by simp
  have r3: "\<forall>row\<in>set ?arr. length row = 8" using assms(3) by (simp add: list_all_iff)
  from incr_rows_within[OF r1 r2 r3] obtain arr' where arr:
    "incr_rows ?arr ?rs cols = Inr arr'" "length arr' = length ?arr"
    "\<forall>r < length ?arr. \<forall>c < 8.
       arr' ! r ! c = ?arr ! r ! c + of_nat (count_list ?rs (int r) * count_list cols (int c))"
    by blast
  let ?a' = "a\<lparr>aln_stats := (aln_stats a)[idx := arr']\<rparr>"
  have "add_to_aln_stats a idx cov cols = Inr ?a'"
    using False assms(1) arr(1) by (simp add: add_to_aln_stats_def)
  moreover have "aln_stats ?a' ! idx ! i ! j =
      aln_stats a ! idx ! i ! j +
      (if fst (fst cov) \<le> int i \<and> int i \<le> fst (snd cov) \<and> int j \<in> set cols then 1 else 0)"
    if "i < bin_count scheme" "j < 8" for i j
  proof -
    have "arr' ! i ! j = ?arr ! i ! j + of_nat (count_list ?rs (int i) * count_list cols (int j))"
      using arr(3) that assms(2) by simp
    moreover have "count_list ?rs (int i) = (if int i \<in> set ?rs then 1 else 0)"
      by (rule count_list_distinct) simp
    moreover have "count_list cols (int j) = (if int j \<in> set cols then 1 else 0)"
      by (rule count_list_distinct) (rule assms(5))
    ultimately show ?thesis using assms(1) by simp
  qed
  ultimately show ?thesis by simp
qed

lemma append_insert_within:
  "idx < length ins \<Longrightarrow> 0 \<le> b \<Longrightarrow> b < int (length (ins ! idx)) \<Longrightarrow>
   append_insert ins idx b v = Inr (ins[idx := (ins ! idx)[nat b := ins ! idx ! nat b @ [v]]])"
  by (simp add: append_insert_def np_index_within)

lemma aln_cols_columns:
  "distinct (always_cols a e n @ category_col c) \<and>
   (\<forall>j\<in>set (always_cols a e n @ category_col c). 0 \<le> j \<and> j < 8)"
  by (cases c)
     (simp_all add: always_cols_def category_col_def READS_def ORPHANED_def INVERTED_def
        SAMESTRAND_def SECONDARY_def SUPPLEMENTARY_def CLIPPED_def DIFFMOL_def)

lemma process_bins_unfold:
  assumes "get_bin_coverage scheme (left e) (right e) = Some cov"
    and "get_num_clipped (cigar e) = Inr n"
  shows "process_bins a idx scheme e =
     (if category_of e \<noteq> Correct then
        add_to_aln_stats a idx cov (always_cols a e n @ category_col (category_of e))
      else if tlen e \<noteq> 0 \<and> mapQT a < mapQ e then
        (if is_rvs e then
           (case get_bin_coverage scheme (right e) (right e) of
              None \<Rightarrow> Inr a
            | Some ins_cov \<Rightarrow>
                (case append_insert (rvs_inserts a) idx (fst (snd ins_cov)) (- tlen e) of
                   Inl er \<Rightarrow> Inl er
                 | Inr ins \<Rightarrow>
                     add_to_aln_stats (a\<lparr>rvs_inserts := ins\<rparr>) idx cov (always_cols a e n)))
         else
           (case get_bin_coverage scheme (left e) (left e) of
              None \<Rightarrow> Inr a
            | Some ins_cov \<Rightarrow>
                (case append_insert (fwd_inserts a) idx (fst (fst ins_cov)) (tlen e) of
                   Inl er \<Rightarrow> Inl er
                 | Inr ins \<Rightarrow>
                     add_to_aln_stats (a\<lparr>fwd_inserts := ins\<rparr>) idx cov (always_cols a e n))))
      else add_to_aln_stats a idx cov (always_cols a e n))"
  using assms
  by (simp add: process_bins_def category_of_def always_cols_def category_col_def Let_def
      split: option.split sum.split)

text \<open>
  What \<^verbatim>\<open>process\<close> does for one scheme to a record that has a coverage there, when
  the statistics have the shapes of the scheme and the scheme answers with bins of its
  own, also for the two ends of the record: it returns, the counters of the bins from
  \<^verbatim>\<open>cov[0][0]\<close> to \<^verbatim>\<open>cov[1][0]\<close> in the columns \<open>always_cols\<close> and
  \<open>category_col\<close> go up by one and no other counter changes, and an insert size is
  appended for a correctly oriented pair with a template length other than 0 and a
  mapping quality above the threshold, and for no other record: the template length in
  the forward list of the bin of the left end, or its negation in the reverse list of the
  bin of the right end.
\<close>

lemma process_bins_effect:
  assumes sh: "shaped a idx scheme"
    and cov: "get_bin_coverage scheme (left e) (right e) = Some cov" "in_bins scheme cov"
    and lc: "get_bin_coverage scheme (left e) (left e) = Some lc" "in_bins scheme lc"
    and rc: "get_bin_coverage scheme (right e) (right e) = Some rc" "in_bins scheme rc"
    and n: "get_num_clipped (cigar e) = Inr n"
  shows "\<exists>a'. process_bins a idx scheme e = Inr a' \<and>
           (\<forall>i < bin_count scheme. \<forall>j < 8.
              aln_stats a' ! idx ! i ! j =
                aln_stats a ! idx ! i ! j +
                (if fst (fst cov) \<le> int i \<and> int i \<le> fst (snd cov) \<and>
                    int j \<in> set (always_cols a e n @ category_col (category_of e))
                 then 1 else 0)) \<and>
           fwd_inserts a' =
             (if category_of e = Correct \<and> tlen e \<noteq> 0 \<and> mapQT a < mapQ e \<and> \<not> is_rvs e
              then (fwd_inserts a)[idx := (fwd_inserts a ! idx)
                     [nat (fst (fst lc)) := fwd_inserts a ! idx ! nat (fst (fst lc)) @ [tlen e]]]
              else fwd_inserts a) \<and>
           rvs_inserts a' =
             (if category_of e = Correct \<and> tlen e \<noteq> 0 \<and> mapQT a < mapQ e \<and> is_rvs e
              then (rvs_inserts a)[idx := (rvs_inserts a ! idx)
                     [nat (fst (snd rc)) := rvs_inserts a ! idx ! nat (fst (snd rc)) @ [- tlen e]]]
              else rvs_inserts a)"
proof -
  let ?cols = "always_cols a e n @ category_col (category_of e)"
  have s1: "idx < length (aln_stats a)" "length (aln_stats a ! idx) = bin_count scheme"
    "list_all (\<lambda>row. length row = 8) (aln_stats a ! idx)"
    using sh by (simp_all add: shaped_def)
  have c1: "distinct ?cols" "\<forall>j\<in>set ?cols. 0 \<le> j \<and> j < 8"
    using aln_cols_columns[of a e n "category_of e"] by blast+
  have c0: "distinct (always_cols a e n)" "\<forall>j\<in>set (always_cols a e n). 0 \<le> j \<and> j < 8"
    using aln_cols_columns[of a e n Correct] by (simp_all add: category_col_def)
  note u = process_bins_unfold[OF cov(1) n, of a idx]
  consider (other) "category_of e \<noteq> Correct"
    | (plain) "category_of e = Correct" "\<not> (tlen e \<noteq> 0 \<and> mapQT a < mapQ e)"
    | (rvs) "category_of e = Correct" "tlen e \<noteq> 0 \<and> mapQT a < mapQ e" "is_rvs e"
    | (fwd) "category_of e = Correct" "tlen e \<noteq> 0 \<and> mapQT a < mapQ e" "\<not> is_rvs e"
    by blast
  then show ?thesis
  proof cases
    case other
    from add_to_aln_stats_within[OF s1 cov(2) c1] other u show ?thesis by auto
  next
    case plain
    from add_to_aln_stats_within[OF s1 cov(2) c0] plain u show ?thesis
      by (auto simp: category_col_def)
  next
    case rvs
    let ?ins = "(rvs_inserts a)[idx := (rvs_inserts a ! idx)
                  [nat (fst (snd rc)) := rvs_inserts a ! idx ! nat (fst (snd rc)) @ [- tlen e]]]"
    let ?a = "a\<lparr>rvs_inserts := ?ins\<rparr>"
    have ap: "append_insert (rvs_inserts a) idx (fst (snd rc)) (- tlen e) = Inr ?ins"
      using sh rc(2) by (intro append_insert_within) (simp_all add: shaped_def in_bins_def)
    have p: "process_bins a idx scheme e = add_to_aln_stats ?a idx cov (always_cols a e n)"
      using u rvs rc(1) ap by simp
    have s2: "idx < length (aln_stats ?a)" "length (aln_stats ?a ! idx) = bin_count scheme"
      "list_all (\<lambda>row. length row = 8) (aln_stats ?a ! idx)"
      using s1 by simp_all
    from add_to_aln_stats_within[OF s2 cov(2) c0] p rvs show ?thesis
      by (auto simp: category_col_def)
  next
    case fwd
    let ?ins = "(fwd_inserts a)[idx := (fwd_inserts a ! idx)
                  [nat (fst (fst lc)) := fwd_inserts a ! idx ! nat (fst (fst lc)) @ [tlen e]]]"
    let ?a = "a\<lparr>fwd_inserts := ?ins\<rparr>"
    have ap: "append_insert (fwd_inserts a) idx (fst (fst lc)) (tlen e) = Inr ?ins"
      using sh lc(2) by (intro append_insert_within) (simp_all add: shaped_def in_bins_def)
    have p: "process_bins a idx scheme e = add_to_aln_stats ?a idx cov (always_cols a e n)"
      using u fwd lc(1) ap by simp
    have s2: "idx < length (aln_stats ?a)" "length (aln_stats ?a ! idx) = bin_count scheme"
      "list_all (\<lambda>row. length row = 8) (aln_stats ?a ! idx)"
      using s1 by simp_all
    from add_to_aln_stats_within[OF s2 cov(2) c0] p fwd show ?thesis
      by (auto simp: category_col_def)
  qed
qed
lemma example_records_constructed:
  "SamEntry_init 16 ''150'' ''60'' ''50M'' ''='' ''-300'' = Inr reverse_read"
  "SamEntry_init 32 ''50'' ''60'' ''50M'' ''='' ''300'' = Inr forward_read"
  "SamEntry_init (8 + 2048) ''150'' ''60'' ''10S40M'' ''*'' ''0'' = Inr orphan_read"
  by code_simp+

lemma example_scheme_shaped: "shaped stats_example 0 (spec_bins ''chr1'' 0 100 3)"
  by (simp add: shaped_def stats_example_def spec_bins_def list_all_iff)

lemma example_scheme_answers:
  "get_bin_coverage (spec_bins ''chr1'' 0 100 3) 150 200 = Some ((1, 50), (2, 0))"
  "get_bin_coverage (spec_bins ''chr1'' 0 100 3) 160 200 = Some ((1, 40), (2, 0))"
  "get_bin_coverage (spec_bins ''chr1'' 0 100 3) 150 150 = Some ((1, 0), (1, 0))"
  "get_bin_coverage (spec_bins ''chr1'' 0 100 3) 160 160 = Some ((1, 0), (1, 0))"
  "get_bin_coverage (spec_bins ''chr1'' 0 100 3) 200 200 = Some ((2, 0), (2, 0))"
  by (simp_all add: spec_bins_def spec_bin_coverage_def bin_index_of_def)

lemma example_in_bins:
  "in_bins (spec_bins ''chr1'' 0 100 3) ((1, 50), (2, 0))"
  "in_bins (spec_bins ''chr1'' 0 100 3) ((1, 40), (2, 0))"
  "in_bins (spec_bins ''chr1'' 0 100 3) ((1, 0), (1, 0))"
  "in_bins (spec_bins ''chr1'' 0 100 3) ((2, 0), (2, 0))"
  by (simp_all add: in_bins_def spec_bins_def)

lemma example_clipped:
  "get_num_clipped ''50M'' = Inr 0" "get_num_clipped ''10S40M'' = Inr 10"
  by code_simp+

text \<open>
  C1. The expression \<^verbatim>\<open>cigar_clip\<close> takes \<^verbatim>\<open>[^HS]\<close> for an operation letter, and
  a digit is such a character. On \<^verbatim>\<open>10S40M5D10M5S\<close> at position 100 the span is
  110 to 165 and 15 bases are clipped, as the specification says. On
  \<^verbatim>\<open>50M100S\<close>, 50 aligned bases followed by a soft clip of 100, the repeated group
  reads \<^verbatim>\<open>50M\<close> and then \<^verbatim>\<open>10\<close> as the pair of a length 1 and the operation
  \<^verbatim>\<open>0\<close>, the trailing soft-clip group captures \<^verbatim>\<open>0\<close>, and the number of
  clipped bases is 0 and not 100; the same happens to a trailing hard clip. The aligned
  span, which does not read the trailing groups, is right.
\<close>

theorem get_num_clipped_long_trailing_clip:
  "get_aligned_pos 100 ''10S40M5D10M5S'' = Inr (110, 165) \<and>
   get_num_clipped ''10S40M5D10M5S'' = Inr 15 \<and>
   cigar_clip_search ''50M100S'' = Some (None, None, Some ''0'', None) \<and>
   get_num_clipped ''50M100S'' = Inr 0 \<and>
   get_num_clipped ''50M100H'' = Inr 0 \<and>
   get_num_clipped ''50M99S'' = Inr 99 \<and>
   get_aligned_pos 100 ''50M100S'' = Inr (100, 150)"
  by code_simp

text \<open>
  C2. For a record that has a coverage in a scheme, \<^verbatim>\<open>process\<close> returns and raises
  by one, in every bin from that of the left end to that of the right end, the counter of
  the one category that the priority order gives the record (none for a correctly
  oriented pair) and the counters that always apply (reads, and secondary, supplementary
  and clipped at or above the threshold where they hold), whatever the category; every
  other counter of the scheme keeps its value. The statistics have the shapes of the
  scheme, and the scheme answers with bins of its own, for the span and for its two ends.
\<close>

theorem process_bins_category:
  assumes "shaped a idx scheme"
    and "get_bin_coverage scheme (left e) (right e) = Some cov" and "in_bins scheme cov"
    and "get_bin_coverage scheme (left e) (left e) = Some lc" and "in_bins scheme lc"
    and "get_bin_coverage scheme (right e) (right e) = Some rc" and "in_bins scheme rc"
    and "get_num_clipped (cigar e) = Inr n"
  shows "\<exists>a'. process_bins a idx scheme e = Inr a' \<and>
           (\<forall>i < bin_count scheme. \<forall>j < 8.
              aln_stats a' ! idx ! i ! j =
                aln_stats a ! idx ! i ! j +
                (if fst (fst cov) \<le> int i \<and> int i \<le> fst (snd cov) \<and>
                    int j \<in> set (always_cols a e n @ category_col (category_of e))
                 then 1 else 0))"
  using process_bins_effect[OF assms] by (elim exE conjE, intro exI conjI) assumption+

theorem process_bins_category_witness:
  "\<exists>a'. process_bins stats_example 0 (spec_bins ''chr1'' 0 100 3) orphan_read = Inr a' \<and>
     category_of orphan_read = Orphaned \<and> mate_diff_molecule orphan_read \<and>
     map (\<lambda>j. aln_stats a' ! 0 ! 1 ! j) [0, 1, 2, 3, 4, 5, 6, 7] = [1, 1, 0, 0, 0, 1, 1, 0] \<and>
     map (\<lambda>j. aln_stats a' ! 0 ! 0 ! j) [0, 1, 2, 3, 4, 5, 6, 7] = [0, 0, 0, 0, 0, 0, 0, 0]"
proof -
  let ?b = "spec_bins ''chr1'' 0 100 3"
  have l: "left orphan_read = 160" "right orphan_read = 200" "cigar orphan_read = ''10S40M''"
    by (simp_all add: orphan_read_def)
  have h2: "get_bin_coverage ?b (left orphan_read) (right orphan_read) = Some ((1, 40), (2, 0))"
    and h4: "get_bin_coverage ?b (left orphan_read) (left orphan_read) = Some ((1, 0), (1, 0))"
    and h6: "get_bin_coverage ?b (right orphan_read) (right orphan_read) = Some ((2, 0), (2, 0))"
    and h8: "get_num_clipped (cigar orphan_read) = Inr 10"
    by (simp_all only: l example_scheme_answers example_clipped)
  have cat: "category_of orphan_read = Orphaned"
    by (simp add: category_of_def has_unmapped_mate_def orphan_read_def mate_unmapped_def)
  have cols: "set (always_cols stats_example orphan_read 10 @ category_col (category_of orphan_read))
      = {0, 5, 6, 1}"
  proof -
    have "category_col (category_of orphan_read) = [1]"
      by (simp add: cat category_col_def ORPHANED_def)
    moreover have "always_cols stats_example orphan_read 10 = [0, 5, 6]"
      by (simp add: always_cols_def orphan_read_def stats_example_def secondary_def
          supplementary_def READS_def SUPPLEMENTARY_def CLIPPED_def)
    ultimately show ?thesis by simp
  qed
  have z: "aln_stats stats_example ! 0 ! i ! j = 0" if "i < 3" "j < 8" for i j
    using that by (simp add: stats_example_def)
  have n: "bin_count ?b = 3" by (simp add: spec_bins_def)
  from process_bins_category[OF example_scheme_shaped h2 example_in_bins(2) h4
      example_in_bins(3) h6 example_in_bins(4) h8]
  obtain a' where p: "process_bins stats_example 0 ?b orphan_read = Inr a'"
    and c: "\<forall>i < 3. \<forall>j < 8. aln_stats a' ! 0 ! i ! j =
              (if 1 \<le> int i \<and> int i \<le> 2 \<and> int j \<in> {0, 5, 6, 1} then 1 else 0)"
    unfolding n cols by (elim exE conjE) (simp add: z)
  have v: "aln_stats a' ! 0 ! i ! j =
      (if 1 \<le> int i \<and> int i \<le> 2 \<and> int j \<in> {0, 5, 6, 1} then 1 else 0)"
    if "i < 3" "j < 8" for i j
    using c that by blast
  have m1: "map (\<lambda>j. aln_stats a' ! 0 ! 1 ! j) [0, 1, 2, 3, 4, 5, 6, 7] = [1, 1, 0, 0, 0, 1, 1, 0]"
    using v[of 1 0] v[of 1 1] v[of 1 2] v[of 1 3] v[of 1 4] v[of 1 5] v[of 1 6] v[of 1 7]
    by simp
  have m0: "map (\<lambda>j. aln_stats a' ! 0 ! 0 ! j) [0, 1, 2, 3, 4, 5, 6, 7] = [0, 0, 0, 0, 0, 0, 0, 0]"
    using v[of 0 0] v[of 0 1] v[of 0 2] v[of 0 3] v[of 0 4] v[of 0 5] v[of 0 6] v[of 0 7]
    by simp
  have d: "mate_diff_molecule orphan_read" by (simp add: orphan_read_def)
  show ?thesis by (intro exI[of _ a'] conjI) (rule p cat d m1 m0)+
qed

text \<open>
  C3. Under the same conditions, a correctly oriented pair with a template length other
  than 0 and a mapping quality above the threshold adds one insert size and no other
  record adds any: a forward-strand record appends its template length to the forward
  list of the bin that the scheme gives for its left end, \<^verbatim>\<open>ins_cov[0][0]\<close>, and a
  reverse-strand record appends the negation of its template length,
  \<^verbatim>\<open>-1 * sam_entry.tlen\<close>, to the reverse list of the bin that the scheme gives for
  its right end, \<^verbatim>\<open>ins_cov[1][0]\<close>. No other list changes.
\<close>

theorem process_bins_inserts:
  assumes "shaped a idx scheme"
    and "get_bin_coverage scheme (left e) (right e) = Some cov" and "in_bins scheme cov"
    and "get_bin_coverage scheme (left e) (left e) = Some lc" and "in_bins scheme lc"
    and "get_bin_coverage scheme (right e) (right e) = Some rc" and "in_bins scheme rc"
    and "get_num_clipped (cigar e) = Inr n"
  shows "\<exists>a'. process_bins a idx scheme e = Inr a' \<and>
           fwd_inserts a' =
             (if category_of e = Correct \<and> tlen e \<noteq> 0 \<and> mapQT a < mapQ e \<and> \<not> is_rvs e
              then (fwd_inserts a)[idx := (fwd_inserts a ! idx)
                     [nat (fst (fst lc)) := fwd_inserts a ! idx ! nat (fst (fst lc)) @ [tlen e]]]
              else fwd_inserts a) \<and>
           rvs_inserts a' =
             (if category_of e = Correct \<and> tlen e \<noteq> 0 \<and> mapQT a < mapQ e \<and> is_rvs e
              then (rvs_inserts a)[idx := (rvs_inserts a ! idx)
                     [nat (fst (snd rc)) := rvs_inserts a ! idx ! nat (fst (snd rc)) @ [- tlen e]]]
              else rvs_inserts a)"
  using process_bins_effect[OF assms] by (elim exE conjE, intro exI conjI) assumption+

text \<open>
  A reverse-strand read of a correctly oriented pair, aligned from 150 to 200 with
  template length -300 and mapping quality 60: the reverse list of bin 2 receives 300,
  not the template length.
\<close>

theorem process_bins_inserts_counterexample:
  "map_sum id rvs_inserts (process stats_example reverse_read) = Inr [[[], [], [300]]] \<and>
   map_sum id rvs_inserts (process stats_example reverse_read)
     \<noteq> Inr [[[], [], [tlen reverse_read]]] \<and>
   tlen reverse_read = - 300 \<and> right reverse_read = 200 \<and> is_rvs reverse_read \<and>
   category_of reverse_read = Correct \<and> mapQT stats_example < mapQ reverse_read"
  by code_simp

theorem process_bins_inserts_witness:
  "\<exists>a'. process_bins stats_example 0 (spec_bins ''chr1'' 0 100 3) reverse_read = Inr a' \<and>
     fwd_inserts a' = [[[], [], []]] \<and> rvs_inserts a' = [[[], [], [300]]]"
proof -
  let ?b = "spec_bins ''chr1'' 0 100 3"
  have l: "left reverse_read = 150" "right reverse_read = 200" "cigar reverse_read = ''50M''"
    by (simp_all add: reverse_read_def)
  have h2: "get_bin_coverage ?b (left reverse_read) (right reverse_read) = Some ((1, 50), (2, 0))"
    and h4: "get_bin_coverage ?b (left reverse_read) (left reverse_read) = Some ((1, 0), (1, 0))"
    and h6: "get_bin_coverage ?b (right reverse_read) (right reverse_read) = Some ((2, 0), (2, 0))"
    and h8: "get_num_clipped (cigar reverse_read) = Inr 0"
    by (simp_all only: l example_scheme_answers example_clipped)
  have cat: "category_of reverse_read = Correct" "is_rvs reverse_read"
    "tlen reverse_read = - 300" "mapQT stats_example < mapQ reverse_read"
    by (simp_all add: category_of_def has_unmapped_mate_def mate_same_strand_def is_inverted_def
        is_rvs_def reverse_read_def mate_unmapped_def read_reverse_def mate_reverse_def
        stats_example_def)
  from process_bins_inserts[OF example_scheme_shaped h2 example_in_bins(1) h4
      example_in_bins(3) h6 example_in_bins(4) h8]
  show ?thesis by (simp add: cat) (simp add: stats_example_def numeral_3_eq_3)
qed

end
